theory Spec2Isabelle
  imports Main "HOL-Library.Word"
begin

unbundle bit_operations_syntax

section \<open>Data model of the file-system system-call layer (sysfile.c)\<close>

text \<open>
  An inode is named by its device and its inode number (\<open>ip->dev\<close>, \<open>ip->inum\<close>).
\<close>

type_synonym iref = "nat \<times> nat"

abbreviation dev :: "iref \<Rightarrow> nat" where "dev ip \<equiv> fst ip"
abbreviation inum :: "iref \<Rightarrow> nat" where "inum ip \<equiv> snd ip"

text \<open>
  \<open>ip->type\<close>: the value 0 of a free inode and the three kinds of stat.h.
\<close>

datatype itype = T_NONE | T_DIR | T_FILE | T_DEV

text \<open>
  The in-memory inode (\<open>struct inode\<close>). The two bits of \<open>ip->flags\<close> that the
  code reads or writes are kept as booleans: \<open>busy\<close> is \<open>I_BUSY\<close> (the inode lock),
  \<open>symlnk\<close> is \<open>I_SYMLNK\<close>. \<open>nlink\<close>, \<open>major\<close> and \<open>minor\<close> are C shorts.
  \<open>addrs\<close> is read by the code as a C string: the characters before the first NUL.
\<close>

record inode =
  ref :: int
  busy :: bool
  symlnk :: bool
  type :: itype
  major :: "16 word"
  minor :: "16 word"
  nlink :: "16 word"
  size_i :: nat
  addrs :: string

text \<open>The on-disk copy of an inode, written by \<open>iupdate\<close>.\<close>

record dinode =
  d_type :: itype
  d_major :: "16 word"
  d_minor :: "16 word"
  d_nlink :: "16 word"
  d_size :: nat
  d_addrs :: string

text \<open>\<open>struct dirent\<close>: an inode number of 0 marks a free slot.\<close>

record dirent =
  de_inum :: nat
  de_name :: string

text \<open>\<open>struct file\<close>.\<close>

datatype fdtype = FD_NONE | FD_PIPE | FD_INODE | FD_SYMLNK

record kfile =
  f_type :: fdtype
  f_ref :: int
  readable :: bool
  writable :: bool
  f_ip :: iref
  f_off :: nat

text \<open>
  The order of the effects of a system call: the transaction brackets, the calls that
  write to durable storage, and the assignments to fields of in-memory inodes.
\<close>

datatype event =
    BeginTrans
  | CommitTrans
  | IAlloc iref
  | IUpdate iref
  | WriteI iref nat
  | Store iref

text \<open>
  The kernel state the system calls work on: the inode cache, the disk inodes, the
  content of directories as slots of directory entries (slot \<open>k\<close> is at byte offset
  \<open>k * sizeof_de\<close>), the number of inodes of a device, the table of open files, the
  descriptor table and the current directory of the calling process, the tag store, and
  the effects so far.
\<close>

record kstate =
  icache :: "iref \<Rightarrow> inode"
  disk :: "iref \<Rightarrow> dinode"
  content :: "iref \<Rightarrow> nat \<Rightarrow> dirent"
  ninodes :: nat
  ftable :: "kfile list"
  ofile :: "nat \<Rightarrow> nat option"
  cwd :: iref
  tagstore :: "iref \<Rightarrow> (string \<times> string) list"
  trace :: "event list"

text \<open>
  A system call returns a value and the new state, or halts the system (\<open>panic\<close>).
\<close>

datatype 'a res = Halt string | Ret 'a kstate

text \<open>
  Constants of headers that are not among the sources (fcntl.h, param.h and the
  header that declares \<open>MAX_LNK_NAME\<close>) are parameters of the model.
\<close>

record kparam =
  O_RDONLY :: "32 word"
  O_WRONLY :: "32 word"
  O_RDWR :: "32 word"
  O_CREATE :: "32 word"
  NOFILE :: nat
  MAX_LNK_NAME :: nat

text \<open>
  Modelled from the spec: fs.h is not among the sources. A directory entry is a
  fixed-width record of a bounded name and an inode number; its width is taken as 16
  bytes.
\<close>

definition sizeof_de :: nat where
  "sizeof_de = 16"

definition zero_de :: dirent where
  "zero_de = \<lparr>de_inum = 0, de_name = []\<rparr>"

section \<open>The collaborators of fs.c, file.c and log.c\<close>

text \<open>
  Modelled from the spec: \<open>begin_transaction()\<close> and \<open>commit_transaction()\<close> of log.c
  open and close the transaction bracket.
\<close>

definition begin_trans :: "kstate \<Rightarrow> kstate" where
  "begin_trans s = s\<lparr>trace := trace s @ [BeginTrans]\<rparr>"

definition commit_trans :: "kstate \<Rightarrow> kstate" where
  "commit_trans s = s\<lparr>trace := trace s @ [CommitTrans]\<rparr>"

text \<open>
  Modelled from the spec: \<open>lock(inode)\<close>, \<open>unlock(inode)\<close>, \<open>release(inode)\<close> (the
  reference-count drop) and \<open>unlock_and_release(inode)\<close> of fs.c. One thread of control
  runs a system call, so that waiting for a lock is not modelled; the reclaiming of an
  inode whose counts reach 0 is the allocator's.
\<close>

definition ilock :: "iref \<Rightarrow> kstate \<Rightarrow> kstate" where
  "ilock ip s = s\<lparr>icache := (icache s)(ip := (icache s ip)\<lparr>busy := True\<rparr>)\<rparr>"

definition iunlock :: "iref \<Rightarrow> kstate \<Rightarrow> kstate" where
  "iunlock ip s = s\<lparr>icache := (icache s)(ip := (icache s ip)\<lparr>busy := False\<rparr>)\<rparr>"

definition iget :: "iref \<Rightarrow> kstate \<Rightarrow> kstate" where
  "iget ip s = s\<lparr>icache := (icache s)(ip := (icache s ip)\<lparr>ref := ref (icache s ip) + 1\<rparr>)\<rparr>"

definition iput :: "iref \<Rightarrow> kstate \<Rightarrow> kstate" where
  "iput ip s = s\<lparr>icache := (icache s)(ip := (icache s ip)\<lparr>ref := ref (icache s ip) - 1\<rparr>)\<rparr>"

definition iunlockput :: "iref \<Rightarrow> kstate \<Rightarrow> kstate" where
  "iunlockput ip s = iput ip (iunlock ip s)"

text \<open>
  Modelled from the spec: \<open>persist(inode)\<close>, the \<open>iupdate\<close> of fs.c, copies the
  in-memory inode to the disk.
\<close>

definition to_dinode :: "inode \<Rightarrow> dinode" where
  "to_dinode i = \<lparr>d_type = type i, d_major = major i, d_minor = minor i,
     d_nlink = nlink i, d_size = size_i i, d_addrs = addrs i\<rparr>"

definition iupdate :: "iref \<Rightarrow> kstate \<Rightarrow> kstate" where
  "iupdate ip s = s\<lparr>disk := (disk s)(ip := to_dinode (icache s ip)),
     trace := trace s @ [IUpdate ip]\<rparr>"

text \<open>
  An assignment of sysfile.c to fields of an in-memory inode
  (\<open>ip->nlink++\<close>, \<open>ip->major = major\<close>, \<open>ip->flags |= I_SYMLNK\<close>, ...).
\<close>

definition istore :: "iref \<Rightarrow> (inode \<Rightarrow> inode) \<Rightarrow> kstate \<Rightarrow> kstate" where
  "istore ip f s = s\<lparr>icache := (icache s)(ip := f (icache s ip)),
     trace := trace s @ [Store ip]\<rparr>"

text \<open>
  Modelled from the spec: \<open>read_bytes(inode, buffer, offset, length) -> count\<close> and
  \<open>write_bytes(inode, buffer, offset, length) -> count\<close> of fs.c, for the reads and
  writes of one directory entry that sysfile.c makes. A read past the end of the content
  fails, a read that crosses the end is short; a write at or before the end succeeds and
  grows the inode when it ends past the old size.
\<close>

definition readi :: "iref \<Rightarrow> nat \<Rightarrow> nat \<Rightarrow> kstate \<Rightarrow> int \<times> dirent" where
  "readi ip off n s =
     (if off > size_i (icache s ip) then (- 1, zero_de)
      else (int (min n (size_i (icache s ip) - off)), content s ip (off div sizeof_de)))"

definition put_de :: "iref \<Rightarrow> dirent \<Rightarrow> nat \<Rightarrow> nat \<Rightarrow> kstate \<Rightarrow> kstate" where
  "put_de ip de off n s =
     (let i' = (icache s ip)\<lparr>size_i := max (size_i (icache s ip)) (off + n)\<rparr> in
      s\<lparr>icache := (icache s)(ip := i'),
        disk := (disk s)(ip := to_dinode i'),
        content := (content s)(ip := (content s ip)(off div sizeof_de := de)),
        trace := trace s @ [WriteI ip off]\<rparr>)"

definition writei :: "iref \<Rightarrow> dirent \<Rightarrow> nat \<Rightarrow> nat \<Rightarrow> kstate \<Rightarrow> int \<times> kstate" where
  "writei ip de off n s =
     (if off > size_i (icache s ip) then (- 1, s)
      else (int n, put_de ip de off n s))"

text \<open>
  Modelled from the spec: \<open>lookup_entry(dir_inode, name) -> (inode, byte offset) | none\<close>,
  the \<open>dirlookup\<close> of fs.c: the first slot in use that holds the name; a reference to the
  inode found is taken. Names are compared as whole strings (\<open>namecmp\<close>).
\<close>

definition nslots :: "kstate \<Rightarrow> iref \<Rightarrow> nat" where
  "nslots s dp = (size_i (icache s dp) + sizeof_de - 1) div sizeof_de"

definition namecmp :: "string \<Rightarrow> string \<Rightarrow> int" where
  "namecmp a b = (if a = b then 0 else 1)"

definition lookup_slot :: "kstate \<Rightarrow> iref \<Rightarrow> string \<Rightarrow> nat option" where
  "lookup_slot s dp name =
     find (\<lambda>k. de_inum (content s dp k) \<noteq> 0 \<and> namecmp name (de_name (content s dp k)) = 0)
       [0 ..< nslots s dp]"

definition dirlookup :: "iref \<Rightarrow> string \<Rightarrow> kstate \<Rightarrow> (iref \<times> nat) option \<times> kstate" where
  "dirlookup dp name s =
     (case lookup_slot s dp name of
        None \<Rightarrow> (None, s)
      | Some k \<Rightarrow>
          let ip = (dev dp, de_inum (content s dp k)) in
          (Some (ip, k * sizeof_de), iget ip s))"

text \<open>
  Modelled from the spec: \<open>insert_entry(dir_inode, name, inode_number) -> success | failure\<close>,
  the \<open>dirlink\<close> of fs.c: fails when the name is present; otherwise writes the entry into
  the first free slot, or behind the last slot.
\<close>

definition free_slot :: "kstate \<Rightarrow> iref \<Rightarrow> nat" where
  "free_slot s dp =
     (case find (\<lambda>k. de_inum (content s dp k) = 0) [0 ..< nslots s dp] of
        None \<Rightarrow> nslots s dp
      | Some k \<Rightarrow> k)"

definition dirlink :: "iref \<Rightarrow> string \<Rightarrow> nat \<Rightarrow> kstate \<Rightarrow> int \<times> kstate" where
  "dirlink dp name i s =
     (case dirlookup dp name s of
        (Some (ip, off), s1) \<Rightarrow> (- 1, iput ip s1)
      | (None, s1) \<Rightarrow>
          (case writei dp \<lparr>de_inum = i, de_name = name\<rparr> (free_slot s1 dp * sizeof_de) sizeof_de s1 of
             (r, s2) \<Rightarrow> if r \<noteq> int sizeof_de then (- 1, s2) else (0, s2)))"

text \<open>
  Modelled from the spec: \<open>allocate_inode(device, kind) -> inode\<close>, the \<open>ialloc\<close> of fs.c:
  the first inode of the device that is free (its type is 0), zeroed, of the kind asked
  for, with one reference; none when the device has no free inode.
\<close>

definition fresh_inode :: "itype \<Rightarrow> inode" where
  "fresh_inode t = \<lparr>ref = 1, busy = False, symlnk = False, type = t, major = 0, minor = 0,
     nlink = 0, size_i = 0, addrs = []\<rparr>"

definition alloc_inode :: "iref \<Rightarrow> itype \<Rightarrow> kstate \<Rightarrow> kstate" where
  "alloc_inode ip t s =
     s\<lparr>icache := (icache s)(ip := fresh_inode t),
       disk := (disk s)(ip := to_dinode (fresh_inode t)),
       trace := trace s @ [IAlloc ip]\<rparr>"

definition ialloc :: "nat \<Rightarrow> itype \<Rightarrow> kstate \<Rightarrow> iref option \<times> kstate" where
  "ialloc d t s =
     (case find (\<lambda>i. type (icache s (d, i)) = T_NONE) [1 ..< ninodes s] of
        None \<Rightarrow> (None, s)
      | Some i \<Rightarrow> (Some (d, i), alloc_inode (d, i) t s))"

text \<open>
  Modelled from the spec: \<open>resolve_path(path) -> inode | none\<close> and
  \<open>resolve_parent(path) -> (parent inode, final component name) | none\<close>, the \<open>namei\<close>
  and \<open>nameiparent\<close> of fs.c. A path is cut at its slashes; an absolute path starts at
  the root inode, another one at the current directory; every inode passed through must
  be a directory; the final component is not dereferenced. A reference to the inode
  returned is taken.
\<close>

function elems :: "string \<Rightarrow> string list" where
  "elems [] = []"
| "elems (c # cs) =
     (if c = CHR ''/'' then elems cs
      else takeWhile (\<lambda>x. x \<noteq> CHR ''/'') (c # cs) # elems (dropWhile (\<lambda>x. x \<noteq> CHR ''/'') cs))"
  by pat_completeness auto
termination
  by (relation "measure length") (auto simp: length_dropWhile_le less_Suc_eq_le)

definition rootino :: iref where
  "rootino = (1, 1)"

definition start_of :: "kstate \<Rightarrow> string \<Rightarrow> iref" where
  "start_of s path = (case path of c # cs \<Rightarrow> if c = CHR ''/'' then rootino else cwd s | [] \<Rightarrow> cwd s)"

fun walk :: "kstate \<Rightarrow> iref \<Rightarrow> string list \<Rightarrow> iref option" where
  "walk s ip [] = Some ip"
| "walk s ip (n # ns) =
     (if type (icache s ip) \<noteq> T_DIR then None
      else case lookup_slot s ip n of
             None \<Rightarrow> None
           | Some k \<Rightarrow> walk s (dev ip, de_inum (content s ip k)) ns)"

definition resolve :: "kstate \<Rightarrow> string \<Rightarrow> iref option" where
  "resolve s path = walk s (start_of s path) (elems path)"

definition resolve_parent :: "kstate \<Rightarrow> string \<Rightarrow> (iref \<times> string) option" where
  "resolve_parent s path =
     (if elems path = [] then None
      else case walk s (start_of s path) (butlast (elems path)) of
             None \<Rightarrow> None
           | Some dp \<Rightarrow> if type (icache s dp) \<noteq> T_DIR then None else Some (dp, last (elems path)))"

definition namei :: "string \<Rightarrow> kstate \<Rightarrow> iref option \<times> kstate" where
  "namei path s =
     (case resolve s path of None \<Rightarrow> (None, s) | Some ip \<Rightarrow> (Some ip, iget ip s))"

definition nameiparent :: "string \<Rightarrow> kstate \<Rightarrow> (iref \<times> string) option \<times> kstate" where
  "nameiparent path s =
     (case resolve_parent s path of
        None \<Rightarrow> (None, s)
      | Some (dp, name) \<Rightarrow> (Some (dp, name), iget dp s))"

text \<open>
  Modelled from the spec: \<open>allocate_open_file() -> open-file object | none\<close> and
  \<open>close(open-file object)\<close> of file.c. An open file is named by its index in the file
  table; a slot with no reference is free; closing drops one reference and, with the
  last one, the reference to the inode the object owns.
\<close>

definition filealloc :: "kstate \<Rightarrow> nat option \<times> kstate" where
  "filealloc s =
     (case find (\<lambda>i. f_ref (ftable s ! i) = 0) [0 ..< length (ftable s)] of
        None \<Rightarrow> (None, s)
      | Some i \<Rightarrow> (Some i, s\<lparr>ftable := (ftable s)[i := (ftable s ! i)\<lparr>f_ref := 1\<rparr>]\<rparr>))"

definition fileclose :: "nat \<Rightarrow> kstate \<Rightarrow> kstate" where
  "fileclose f s =
     (let ff = ftable s ! f in
      if f_ref ff - 1 > 0 then s\<lparr>ftable := (ftable s)[f := ff\<lparr>f_ref := f_ref ff - 1\<rparr>]\<rparr>
      else
        let s1 = s\<lparr>ftable := (ftable s)[f := ff\<lparr>f_ref := 0, f_type := FD_NONE\<rparr>]\<rparr> in
        if f_type ff = FD_INODE \<or> f_type ff = FD_SYMLNK then iput (f_ip ff) s1 else s1)"

text \<open>
  Modelled from the spec: the bounded string copy of string.c (\<open>safestrcpy\<close>), which
  copies at most \<open>n - 1\<close> characters and closes the string, and does nothing for
  \<open>n \<le> 0\<close>. The first argument is the old content of the destination.
\<close>

definition safestrcpy :: "string \<Rightarrow> string \<Rightarrow> int \<Rightarrow> string" where
  "safestrcpy s t n = (if n \<le> 0 then s else take (nat n - 1) t)"

text \<open>
  Modelled from the spec: \<open>set_tag_store\<close>, \<open>clear_tag_store\<close> and \<open>get_tag_store\<close>,
  the \<open>fs_ftag\<close>, \<open>fs_funtag\<close> and \<open>fs_gettag\<close> of fs.c: one key-value mutation or query
  on the tag store of the inode behind the open file; the status is negative on failure.
\<close>

definition fs_ftag :: "nat \<Rightarrow> string \<Rightarrow> string \<Rightarrow> kstate \<Rightarrow> int \<times> kstate" where
  "fs_ftag f key val s =
     (let ip = f_ip (ftable s ! f) in
      (0, s\<lparr>tagstore := (tagstore s)(ip := (key, val) # filter (\<lambda>kv. fst kv \<noteq> key) (tagstore s ip))\<rparr>))"

definition fs_funtag :: "nat \<Rightarrow> string \<Rightarrow> kstate \<Rightarrow> int \<times> kstate" where
  "fs_funtag f key s =
     (let ip = f_ip (ftable s ! f) in
      case map_of (tagstore s ip) key of
        None \<Rightarrow> (- 1, s)
      | Some v \<Rightarrow> (0, s\<lparr>tagstore := (tagstore s)(ip := filter (\<lambda>kv. fst kv \<noteq> key) (tagstore s ip))\<rparr>))"

definition fs_gettag :: "nat \<Rightarrow> string \<Rightarrow> string \<Rightarrow> kstate \<Rightarrow> (int \<times> string) \<times> kstate" where
  "fs_gettag f key buf s =
     (let ip = f_ip (ftable s ! f) in
      case map_of (tagstore s ip) key of
        None \<Rightarrow> ((- 1, buf), s)
      | Some v \<Rightarrow> ((int (length v), v), s))"

section \<open>sysfile.c\<close>

text \<open>
  The arguments of a system call are fetched from the calling process by \<open>argint\<close>,
  \<open>argstr\<close> and \<open>argptr\<close>; an argument is \<open>None\<close> when its fetch fails.
\<close>

text \<open>\<open>argfd\<close>: the descriptor and the open file behind it.\<close>

definition argfd :: "kparam \<Rightarrow> int option \<Rightarrow> kstate \<Rightarrow> (nat \<times> nat) option" where
  "argfd kp a s =
     (case a of
        None \<Rightarrow> None
      | Some fd \<Rightarrow>
          if fd < 0 \<or> fd \<ge> int (NOFILE kp) then None
          else (case ofile s (nat fd) of None \<Rightarrow> None | Some f \<Rightarrow> Some (nat fd, f)))"

text \<open>\<open>fdalloc\<close>: the loop over the descriptors, from \<open>fd\<close> on.\<close>

function fdalloc_from :: "kparam \<Rightarrow> nat \<Rightarrow> nat \<Rightarrow> kstate \<Rightarrow> int \<times> kstate" where
  "fdalloc_from kp fd f s =
     (if fd < NOFILE kp then
        (if ofile s fd = None then (int fd, s\<lparr>ofile := (ofile s)(fd \<mapsto> f)\<rparr>)
         else fdalloc_from kp (fd + 1) f s)
      else (- 1, s))"
  by pat_completeness auto
termination
  by (relation "measure (\<lambda>(kp, fd, f, s). NOFILE kp - fd)") auto

definition fdalloc :: "kparam \<Rightarrow> nat \<Rightarrow> kstate \<Rightarrow> int \<times> kstate" where
  "fdalloc kp f s = fdalloc_from kp 0 f s"

text \<open>\<open>sys_link\<close>: the code behind the label \<open>bad\<close>, then the system call.\<close>

definition link_bad :: "iref \<Rightarrow> kstate \<Rightarrow> int res" where
  "link_bad ip s =
     (let s = ilock ip s;
          s = istore ip (\<lambda>i. i\<lparr>nlink := nlink i - 1\<rparr>) s;
          s = iupdate ip s;
          s = iunlockput ip s;
          s = commit_trans s
      in Ret (- 1) s)"

definition sys_link :: "string option \<Rightarrow> string option \<Rightarrow> kstate \<Rightarrow> int res" where
  "sys_link a0 a1 s =
     (case (a0, a1) of
        (Some old, Some new) \<Rightarrow>
          (case namei old s of
             (None, s) \<Rightarrow> Ret (- 1) s
           | (Some ip, s) \<Rightarrow>
               let s = begin_trans s;
                   s = ilock ip s
               in if type (icache s ip) = T_DIR then
                    Ret (- 1) (commit_trans (iunlockput ip s))
                  else
                    let s = istore ip (\<lambda>i. i\<lparr>nlink := nlink i + 1\<rparr>) s;
                        s = iupdate ip s;
                        s = iunlock ip s
                    in (case nameiparent new s of
                          (None, s) \<Rightarrow> link_bad ip s
                        | (Some (dp, name), s) \<Rightarrow>
                            let s = ilock dp s in
                            if dev dp \<noteq> dev ip then link_bad ip (iunlockput dp s)
                            else (case dirlink dp name (inum ip) s of
                                    (r, s) \<Rightarrow>
                                      if r < 0 then link_bad ip (iunlockput dp s)
                                      else Ret 0 (commit_trans (iput ip (iunlockput dp s))))))
      | _ \<Rightarrow> Ret (- 1) s)"

text \<open>
  \<open>isdirempty\<close>: the loop from offset \<open>off\<close> on; \<open>Inl\<close> is the panic.
\<close>

function isdirempty_from :: "nat \<Rightarrow> iref \<Rightarrow> kstate \<Rightarrow> string + int" where
  "isdirempty_from off dp s =
     (if off < size_i (icache s dp) then
        (case readi dp off sizeof_de s of
           (r, de) \<Rightarrow>
             if r \<noteq> int sizeof_de then Inl ''isdirempty: readi''
             else if de_inum de \<noteq> 0 then Inr 0
             else isdirempty_from (off + sizeof_de) dp s)
      else Inr 1)"
  by pat_completeness auto
termination
  by (relation "measure (\<lambda>(off, dp, s). size_i (icache s dp) - off)") (auto simp: sizeof_de_def)

definition isdirempty :: "iref \<Rightarrow> kstate \<Rightarrow> string + int" where
  "isdirempty dp s = isdirempty_from (2 * sizeof_de) dp s"

text \<open>\<open>sys_unlink\<close>: the code behind the label \<open>bad\<close>, then the system call.\<close>

definition unlink_bad :: "iref \<Rightarrow> kstate \<Rightarrow> int res" where
  "unlink_bad dp s = Ret (- 1) (commit_trans (iunlockput dp s))"

definition sys_unlink :: "string option \<Rightarrow> kstate \<Rightarrow> int res" where
  "sys_unlink a0 s =
     (case a0 of
        None \<Rightarrow> Ret (- 1) s
      | Some path \<Rightarrow>
          (case nameiparent path s of
             (None, s) \<Rightarrow> Ret (- 1) s
           | (Some (dp, name), s) \<Rightarrow>
               let s = begin_trans s;
                   s = ilock dp s
               in if namecmp name ''.'' = 0 \<or> namecmp name ''..'' = 0 then unlink_bad dp s
                  else
                    (case dirlookup dp name s of
                       (None, s) \<Rightarrow> unlink_bad dp s
                     | (Some (ip, off), s) \<Rightarrow>
                         let s = ilock ip s in
                         if sint (nlink (icache s ip)) < 1 then Halt ''unlink: nlink < 1''
                         else
                           (case (if type (icache s ip) = T_DIR then isdirempty ip s else Inr 1) of
                              Inl msg \<Rightarrow> Halt msg
                            | Inr e \<Rightarrow>
                                if type (icache s ip) = T_DIR \<and> e = 0 then
                                  unlink_bad dp (iunlockput ip s)
                                else
                                  (case writei dp zero_de off sizeof_de s of
                                     (r, s) \<Rightarrow>
                                       if r \<noteq> int sizeof_de then Halt ''unlink: writei''
                                       else
                                         let s = (if type (icache s ip) = T_DIR then
                                                    iupdate dp (istore dp (\<lambda>i. i\<lparr>nlink := nlink i - 1\<rparr>) s)
                                                  else s);
                                             s = iunlockput dp s;
                                             s = istore ip (\<lambda>i. i\<lparr>nlink := nlink i - 1\<rparr>) s;
                                             s = iupdate ip s;
                                             s = iunlockput ip s;
                                             s = commit_trans s
                                         in Ret 0 s)))))"

text \<open>
  \<open>create\<close>: the \<open>.\<close> and \<open>..\<close> entries of a new directory, the entry in the parent,
  then the function. The result is the locked inode, or \<open>None\<close> for the null pointer.
\<close>

definition create_dots :: "iref \<Rightarrow> iref \<Rightarrow> kstate \<Rightarrow> unit res" where
  "create_dots dp ip s =
     (let s = istore dp (\<lambda>i. i\<lparr>nlink := nlink i + 1\<rparr>) s;
          s = iupdate dp s
      in case dirlink ip ''.'' (inum ip) s of
           (r, s) \<Rightarrow>
             if r < 0 then Halt ''create dots''
             else (case dirlink ip ''..'' (inum dp) s of
                     (r, s) \<Rightarrow> if r < 0 then Halt ''create dots'' else Ret () s))"

definition create_entry :: "iref \<Rightarrow> string \<Rightarrow> iref \<Rightarrow> kstate \<Rightarrow> iref option res" where
  "create_entry dp name ip s =
     (case dirlink dp name (inum ip) s of
        (r, s) \<Rightarrow>
          if r < 0 then Halt ''create: dirlink''
          else Ret (Some ip) (iunlockput dp s))"

definition create :: "string \<Rightarrow> itype \<Rightarrow> 16 word \<Rightarrow> 16 word \<Rightarrow> kstate \<Rightarrow> iref option res" where
  "create path t mj mn s =
     (case nameiparent path s of
        (None, s) \<Rightarrow> Ret None s
      | (Some (dp, name), s) \<Rightarrow>
          let s = ilock dp s in
          (case dirlookup dp name s of
             (Some (ip, off), s) \<Rightarrow>
               let s = iunlockput dp s;
                   s = ilock ip s
               in if t = T_FILE \<and> type (icache s ip) = T_FILE then Ret (Some ip) s
                  else Ret None (iunlockput ip s)
           | (None, s) \<Rightarrow>
               (case ialloc (dev dp) t s of
                  (None, s) \<Rightarrow> Halt ''create: ialloc''
                | (Some ip, s) \<Rightarrow>
                    let s = ilock ip s;
                        s = istore ip (\<lambda>i. i\<lparr>major := mj\<rparr>) s;
                        s = istore ip (\<lambda>i. i\<lparr>minor := mn\<rparr>) s;
                        s = istore ip (\<lambda>i. i\<lparr>nlink := 1\<rparr>) s;
                        s = iupdate ip s
                    in if t = T_DIR then
                         (case create_dots dp ip s of
                            Halt msg \<Rightarrow> Halt msg
                          | Ret u s \<Rightarrow> create_entry dp name ip s)
                       else create_entry dp name ip s)))"

text \<open>
  The two loops that follow a chain of symbolic links leave by \<open>return\<close> with a value,
  or run to their end (by \<open>break\<close> or by the bound) with the counter \<open>i\<close> and the inode
  \<open>ip\<close>.
\<close>

datatype lres = LRet int kstate | LDone nat iref kstate

text \<open>\<open>sys_open\<close>: the loop over the chain, from the counter \<open>i\<close> on.\<close>

function open_follow :: "nat \<Rightarrow> iref \<Rightarrow> kstate \<Rightarrow> lres" where
  "open_follow i ip s =
     (if i < 16 then
        (if symlnk (icache s ip) then
           (case namei (addrs (icache s ip)) s of
              (None, s) \<Rightarrow> LRet (- 1) (iunlock ip s)
            | (Some sym_ip, s) \<Rightarrow> open_follow (i + 1) sym_ip (ilock sym_ip (iunlock ip s)))
         else LDone i ip s)
      else LDone i ip s)"
  by pat_completeness auto
termination
  by (relation "measure (\<lambda>(i, ip, s). 16 - i)") auto

text \<open>\<open>sys_open\<close> from the loop on, then the system call.\<close>

definition open_file :: "kparam \<Rightarrow> 32 word \<Rightarrow> iref \<Rightarrow> kstate \<Rightarrow> int res" where
  "open_file kp omode ip s =
     (case open_follow 0 ip s of
        LRet r s \<Rightarrow> Ret r s
      | LDone i ip s \<Rightarrow>
          if i = 16 then Halt ''symbolic link exceeds 16 links ''
          else
            (case filealloc s of
               (None, s) \<Rightarrow> Ret (- 1) (iunlockput ip s)
             | (Some f, s) \<Rightarrow>
                 (case fdalloc kp f s of
                    (fd, s) \<Rightarrow>
                      if fd < 0 then Ret (- 1) (iunlockput ip (fileclose f s))
                      else
                        let s = iunlock ip s;
                            s = s\<lparr>ftable := (ftable s)[f := (ftable s ! f)
                                  \<lparr>f_type := FD_INODE, f_ip := ip, f_off := 0,
                                   readable := \<not> (omode AND O_WRONLY kp \<noteq> 0),
                                   writable := (omode AND O_WRONLY kp \<noteq> 0) \<or> (omode AND O_RDWR kp \<noteq> 0)\<rparr>]\<rparr>
                        in Ret fd s)))"

definition sys_open :: "kparam \<Rightarrow> string option \<Rightarrow> 32 word option \<Rightarrow> kstate \<Rightarrow> int res" where
  "sys_open kp a0 a1 s =
     (case (a0, a1) of
        (Some path, Some omode) \<Rightarrow>
          if omode AND O_CREATE kp \<noteq> 0 then
            (case create path T_FILE 0 0 (begin_trans s) of
               Halt msg \<Rightarrow> Halt msg
             | Ret r s \<Rightarrow>
                 let s = commit_trans s in
                 (case r of None \<Rightarrow> Ret (- 1) s | Some ip \<Rightarrow> open_file kp omode ip s))
          else
            (case namei path s of
               (None, s) \<Rightarrow> Ret (- 1) s
             | (Some ip, s) \<Rightarrow>
                 let s = ilock ip s in
                 if type (icache s ip) = T_DIR \<and> omode \<noteq> O_RDONLY kp then
                   Ret (- 1) (iunlockput ip s)
                 else open_file kp omode ip s)
      | _ \<Rightarrow> Ret (- 1) s)"

text \<open>\<open>sys_mkdir\<close> and \<open>sys_mknod\<close>.\<close>

definition sys_mkdir :: "string option \<Rightarrow> kstate \<Rightarrow> int res" where
  "sys_mkdir a0 s =
     (let s = begin_trans s in
      case a0 of
        None \<Rightarrow> Ret (- 1) (commit_trans s)
      | Some path \<Rightarrow>
          (case create path T_DIR 0 0 s of
             Halt msg \<Rightarrow> Halt msg
           | Ret None s \<Rightarrow> Ret (- 1) (commit_trans s)
           | Ret (Some ip) s \<Rightarrow> Ret 0 (commit_trans (iunlockput ip s))))"

definition sys_mknod :: "string option \<Rightarrow> 32 word option \<Rightarrow> 32 word option \<Rightarrow> kstate \<Rightarrow> int res" where
  "sys_mknod a0 a1 a2 s =
     (let s = begin_trans s in
      case (a0, a1, a2) of
        (Some path, Some mj, Some mn) \<Rightarrow>
          (case create path T_DEV (ucast mj) (ucast mn) s of
             Halt msg \<Rightarrow> Halt msg
           | Ret None s \<Rightarrow> Ret (- 1) (commit_trans s)
           | Ret (Some ip) s \<Rightarrow> Ret 0 (commit_trans (iunlockput ip s)))
      | _ \<Rightarrow> Ret (- 1) (commit_trans s))"

text \<open>
  \<open>sys_symlink\<close>. The open file is allocated and filled in, and no descriptor is
  allocated for it.
\<close>

definition sys_symlink :: "kparam \<Rightarrow> string option \<Rightarrow> string option \<Rightarrow> kstate \<Rightarrow> int res" where
  "sys_symlink kp a0 a1 s =
     (case (a0, a1) of
        (Some target, Some path) \<Rightarrow>
          (case create path T_FILE 0 0 (begin_trans s) of
             Halt msg \<Rightarrow> Halt msg
           | Ret r s \<Rightarrow>
               let s = commit_trans s in
               (case r of
                  None \<Rightarrow> Ret (- 1) s
                | Some ip \<Rightarrow>
                    (case filealloc s of
                       (None, s) \<Rightarrow> Ret (- 1) (iunlockput ip s)
                     | (Some f, s) \<Rightarrow>
                         if length target > MAX_LNK_NAME kp then
                           Halt ''target soft link path is too long ''
                         else
                           let s = istore ip (\<lambda>i. i\<lparr>addrs :=
                                     safestrcpy (addrs i) target (int (MAX_LNK_NAME kp))\<rparr>) s;
                               s = istore ip (\<lambda>i. i\<lparr>symlnk := True\<rparr>) s;
                               s = istore ip (\<lambda>i. i\<lparr>size_i := 0\<rparr>) s;
                               s = iunlock ip s;
                               s = s\<lparr>ftable := (ftable s)[f := (ftable s ! f)
                                     \<lparr>f_type := FD_SYMLNK, f_ip := ip, f_off := 0,
                                      readable := True, writable := False\<rparr>]\<rparr>
                           in Ret 0 s)))
      | _ \<Rightarrow> Ret (- 1) s)"

text \<open>
  \<open>sys_readlink\<close>: the loop over the chain, then the system call. The result is the
  value returned and the string in the buffer of the caller.
\<close>

function readlink_follow :: "nat \<Rightarrow> iref \<Rightarrow> kstate \<Rightarrow> lres" where
  "readlink_follow i ip s =
     (if i < 16 then
        (case namei (addrs (icache s ip)) s of
           (None, s) \<Rightarrow> LRet (- 2) (iunlock ip s)
         | (Some sym_ip, s) \<Rightarrow>
             if symlnk (icache s sym_ip) then
               readlink_follow (i + 1) sym_ip (ilock sym_ip (iunlock ip s))
             else LDone i ip s)
      else LDone i ip s)"
  by pat_completeness auto
termination
  by (relation "measure (\<lambda>(i, ip, s). 16 - i)") auto

definition sys_readlink ::
  "string option \<Rightarrow> string option \<Rightarrow> 32 word option \<Rightarrow> kstate \<Rightarrow> (int \<times> string) res" where
  "sys_readlink a0 a1 a2 s =
     (case (a0, a1, a2) of
        (Some path, Some buf, Some bufsiz) \<Rightarrow>
          (case namei path s of
             (None, s) \<Rightarrow> Ret (- 1, buf) s
           | (Some ip, s) \<Rightarrow>
               let s = ilock ip s in
               if \<not> symlnk (icache s ip) then Ret (- 1, buf) (iunlock ip s)
               else
                 (case readlink_follow 0 ip s of
                    LRet r s \<Rightarrow> Ret (r, buf) s
                  | LDone i ip s \<Rightarrow>
                      if i = 16 then Halt ''symbolic link exceeds 16 links ''
                      else if type (icache s ip) = T_FILE \<and> symlnk (icache s ip) then
                        let buf = safestrcpy buf (addrs (icache s ip)) (sint bufsiz) in
                        Ret (int (length buf), buf) (iunlock ip s)
                      else Ret (- 1, buf) (iunlock ip s)))
      | _ \<Rightarrow> Ret (- 1, case a1 of None \<Rightarrow> [] | Some buf \<Rightarrow> buf) s)"

text \<open>
  The tag system calls \<open>sys_ftag\<close>, \<open>sys_funtag\<close> and \<open>sys_gettag\<close>; the last one
  returns its value and the string in the buffer of the caller.
\<close>

definition sys_ftag ::
  "kparam \<Rightarrow> int option \<Rightarrow> string option \<Rightarrow> string option \<Rightarrow> kstate \<Rightarrow> int res" where
  "sys_ftag kp a0 a1 a2 s =
     (case (argfd kp a0 s, a1, a2) of
        (Some (fd, file_ptr), Some key, Some val) \<Rightarrow>
          (case fs_ftag file_ptr key val (begin_trans s) of
             (ret, s) \<Rightarrow> Ret ret (commit_trans s))
      | _ \<Rightarrow> Ret (- 1) s)"

definition sys_funtag :: "kparam \<Rightarrow> int option \<Rightarrow> string option \<Rightarrow> kstate \<Rightarrow> int res" where
  "sys_funtag kp a0 a1 s =
     (case (argfd kp a0 s, a1) of
        (Some (fd, file_ptr), Some key) \<Rightarrow>
          (case fs_funtag file_ptr key (begin_trans s) of
             (ret, s) \<Rightarrow> Ret ret (commit_trans s))
      | _ \<Rightarrow> Ret (- 1) s)"

definition sys_gettag ::
  "kparam \<Rightarrow> int option \<Rightarrow> string option \<Rightarrow> string option \<Rightarrow> kstate \<Rightarrow> (int \<times> string) res" where
  "sys_gettag kp a0 a1 a2 s =
     (case (argfd kp a0 s, a1, a2) of
        (Some (fd, file_ptr), Some key, Some buf) \<Rightarrow>
          (case fs_gettag file_ptr key buf (begin_trans s) of
             (ret, s) \<Rightarrow> Ret ret (commit_trans s))
      | _ \<Rightarrow> Ret (- 1, case a2 of None \<Rightarrow> [] | Some buf \<Rightarrow> buf) s)"

section \<open>Notions used to state the properties\<close>

text \<open>
  What path resolution reads of a state: the types and sizes of the inodes, the content of
  the directories and the current directory.
\<close>

definition fsview ::
  "kstate \<Rightarrow> (iref \<Rightarrow> itype) \<times> (iref \<Rightarrow> nat) \<times> (iref \<Rightarrow> nat \<Rightarrow> dirent) \<times> iref" where
  "fsview s = ((\<lambda>ip. type (icache s ip)), (\<lambda>ip. size_i (icache s ip)), content s, cwd s)"

text \<open>The effects that a run from \<open>s\<close> to \<open>s'\<close> has added.\<close>

definition new_events :: "kstate \<Rightarrow> kstate \<Rightarrow> event list" where
  "new_events s s' = drop (length (trace s)) (trace s')"

text \<open>The value a run returns, and the message it halts with.\<close>

definition ret_val :: "'a res \<Rightarrow> 'a option" where
  "ret_val r = (case r of Halt msg \<Rightarrow> None | Ret v s \<Rightarrow> Some v)"

definition halt_msg :: "'a res \<Rightarrow> string option" where
  "halt_msg r = (case r of Halt msg \<Rightarrow> Some msg | Ret v s \<Rightarrow> None)"

text \<open>
  A small file system for the examples: the root directory \<open>/\<close> holds the plain file
  \<open>a\<close>, the empty directory \<open>d\<close>, the symbolic link \<open>l\<close> to \<open>/a\<close>, the directory
  \<open>e\<close> with the entry \<open>x\<close>, and the symbolic link \<open>m\<close> to itself; two open files and
  two descriptors are free.
\<close>

definition kp0 :: kparam where
  "kp0 = \<lparr>O_RDONLY = 0, O_WRONLY = 1, O_RDWR = 2, O_CREATE = 512, NOFILE = 2, MAX_LNK_NAME = 8\<rparr>"

definition blank :: inode where
  "blank = \<lparr>ref = 0, busy = False, symlnk = False, type = T_NONE, major = 0, minor = 0,
     nlink = 0, size_i = 0, addrs = []\<rparr>"

definition fs0 :: kstate where
  "fs0 = \<lparr>icache = (\<lambda>ip. blank)
       ((1, 1) := blank\<lparr>ref := 1, type := T_DIR, nlink := 1, size_i := 112\<rparr>,
        (1, 2) := blank\<lparr>type := T_FILE, nlink := 2\<rparr>,
        (1, 3) := blank\<lparr>type := T_DIR, nlink := 1, size_i := 32\<rparr>,
        (1, 4) := blank\<lparr>type := T_FILE, nlink := 1, symlnk := True, addrs := ''/a''\<rparr>,
        (1, 5) := blank\<lparr>type := T_DIR, nlink := 1, size_i := 48\<rparr>,
        (1, 6) := blank\<lparr>type := T_FILE, nlink := 1, symlnk := True, addrs := ''/m''\<rparr>),
     disk = (\<lambda>ip. to_dinode blank),
     content = (\<lambda>ip k. zero_de)
       ((1, 1) := (\<lambda>k. zero_de)
          (0 := \<lparr>de_inum = 1, de_name = ''.''\<rparr>, 1 := \<lparr>de_inum = 1, de_name = ''..''\<rparr>,
           2 := \<lparr>de_inum = 2, de_name = ''a''\<rparr>, 3 := \<lparr>de_inum = 3, de_name = ''d''\<rparr>,
           4 := \<lparr>de_inum = 4, de_name = ''l''\<rparr>, 5 := \<lparr>de_inum = 5, de_name = ''e''\<rparr>,
           6 := \<lparr>de_inum = 6, de_name = ''m''\<rparr>),
        (1, 3) := (\<lambda>k. zero_de)
          (0 := \<lparr>de_inum = 3, de_name = ''.''\<rparr>, 1 := \<lparr>de_inum = 1, de_name = ''..''\<rparr>),
        (1, 5) := (\<lambda>k. zero_de)
          (0 := \<lparr>de_inum = 5, de_name = ''.''\<rparr>, 1 := \<lparr>de_inum = 1, de_name = ''..''\<rparr>,
           2 := \<lparr>de_inum = 2, de_name = ''x''\<rparr>)),
     ninodes = 10,
     ftable = replicate 2 \<lparr>f_type = FD_NONE, f_ref = 0, readable = False, writable = False,
                             f_ip = (0, 0), f_off = 0\<rparr>,
     ofile = (\<lambda>fd. None),
     cwd = (1, 1),
     tagstore = (\<lambda>ip. []),
     trace = []\<rparr>"

text \<open>
  What the following of symbolic links reads of a state, besides what path resolution
  reads: the symbolic-link flag and the target of every inode.
\<close>

definition lview ::
  "kstate \<Rightarrow> (iref \<Rightarrow> bool) \<times> (iref \<Rightarrow> string) \<times>
     (iref \<Rightarrow> itype) \<times> (iref \<Rightarrow> nat) \<times> (iref \<Rightarrow> nat \<Rightarrow> dirent) \<times> iref" where
  "lview s = ((\<lambda>ip. symlnk (icache s ip)), (\<lambda>ip. addrs (icache s ip)), fsview s)"

text \<open>
  A chain of symbolic links: \<open>chain s ip n = Some t\<close> when \<open>n\<close> symbolic links, each
  with a target that resolves, lead from the inode \<open>ip\<close> to the inode \<open>t\<close>. The chain
  of \<open>ip\<close> has depth \<open>n\<close> when moreover \<open>t\<close> is not a symbolic link.
\<close>

fun chain :: "kstate \<Rightarrow> iref \<Rightarrow> nat \<Rightarrow> iref option" where
  "chain s ip 0 = Some ip"
| "chain s ip (Suc n) =
     (if symlnk (icache s ip) then
        (case resolve s (addrs (icache s ip)) of
           None \<Rightarrow> None
         | Some t \<Rightarrow> chain s t n)
      else None)"

text \<open>
  A file system with a long chain: the root directory holds the 18 one-letter names
  \<open>a\<close>, \<open>b\<close>, ..., \<open>r\<close>; the name number \<open>k\<close> (from 0) is the inode \<open>k + 2\<close>; the
  first 17 of them are symbolic links, each to the next name, and the last one, \<open>r\<close>, is a
  plain file.
\<close>

definition lname :: "nat \<Rightarrow> string" where
  "lname k = take 1 (drop k ''abcdefghijklmnopqr'')"

definition fs17 :: kstate where
  "fs17 = \<lparr>icache = (\<lambda>ip.
         if ip = (1, 1) then blank\<lparr>ref := 1, type := T_DIR, nlink := 1, size_i := 320\<rparr>
         else if dev ip = 1 \<and> 2 \<le> inum ip \<and> inum ip < 19 then
           blank\<lparr>type := T_FILE, nlink := 1, symlnk := True,
                 addrs := CHR ''/'' # lname (inum ip - 1)\<rparr>
         else if ip = (1, 19) then blank\<lparr>type := T_FILE, nlink := 1\<rparr>
         else blank),
     disk = (\<lambda>ip. to_dinode blank),
     content = (\<lambda>ip k.
         if ip = (1, 1) then
           (if k = 0 then \<lparr>de_inum = 1, de_name = ''.''\<rparr>
            else if k = 1 then \<lparr>de_inum = 1, de_name = ''..''\<rparr>
            else if k < 20 then \<lparr>de_inum = k, de_name = lname (k - 2)\<rparr>
            else zero_de)
         else zero_de),
     ninodes = 32,
     ftable = replicate 2 \<lparr>f_type = FD_NONE, f_ref = 0, readable = False, writable = False,
                             f_ip = (0, 0), f_off = 0\<rparr>,
     ofile = (\<lambda>fd. None),
     cwd = (1, 1),
     tagstore = (\<lambda>ip. []),
     trace = []\<rparr>"

text \<open>
  The small file system with the link \<open>l\<close> broken: its target \<open>/q\<close> does not exist.
\<close>

definition fs0_broken :: kstate where
  "fs0_broken = fs0\<lparr>icache := (icache fs0)((1, 4) := (icache fs0 (1, 4))\<lparr>addrs := ''/q''\<rparr>)\<rparr>"

text \<open>
  The transaction brackets among a list of effects, those of a state, and the relation
  of a state to a later one: the later one has the effects of the earlier one, and more.
\<close>

definition txn_events :: "event list \<Rightarrow> event list" where
  "txn_events evs = filter (\<lambda>e. e = BeginTrans \<or> e = CommitTrans) evs"

definition txn :: "kstate \<Rightarrow> event list" where
  "txn s = txn_events (trace s)"

definition extends :: "kstate \<Rightarrow> kstate \<Rightarrow> bool" where
  "extends s s' = (take (length (trace s)) (trace s') = trace s)"

text \<open>
  The system calls that the specification lists as bracketed by a transaction, with their
  arguments as fetched; the state in which a call returns (\<open>None\<close> when it halts the
  system); the brackets a call adds.
\<close>

datatype syscall =
    Link "string option" "string option"
  | Unlink "string option"
  | Open "string option" "32 word option"
  | Mkdir "string option"
  | Mknod "string option" "32 word option" "32 word option"
  | Symlink "string option" "string option"
  | Ftag "int option" "string option" "string option"
  | Funtag "int option" "string option"
  | Gettag "int option" "string option" "string option"

definition final :: "'a res \<Rightarrow> kstate option" where
  "final r = (case r of Halt msg \<Rightarrow> None | Ret v s \<Rightarrow> Some s)"

fun run :: "kparam \<Rightarrow> syscall \<Rightarrow> kstate \<Rightarrow> kstate option" where
  "run kp (Link a0 a1) s = final (sys_link a0 a1 s)"
| "run kp (Unlink a0) s = final (sys_unlink a0 s)"
| "run kp (Open a0 a1) s = final (sys_open kp a0 a1 s)"
| "run kp (Mkdir a0) s = final (sys_mkdir a0 s)"
| "run kp (Mknod a0 a1 a2) s = final (sys_mknod a0 a1 a2 s)"
| "run kp (Symlink a0 a1) s = final (sys_symlink kp a0 a1 s)"
| "run kp (Ftag a0 a1 a2) s = final (sys_ftag kp a0 a1 a2 s)"
| "run kp (Funtag a0 a1) s = final (sys_funtag kp a0 a1 s)"
| "run kp (Gettag a0 a1 a2) s = final (sys_gettag kp a0 a1 a2 s)"

definition run_txn :: "kparam \<Rightarrow> syscall \<Rightarrow> kstate \<Rightarrow> event list option" where
  "run_txn kp c s = (case run kp c s of None \<Rightarrow> None | Some s' \<Rightarrow> Some (txn_events (new_events s s')))"

text \<open>
  The entry validation of a call: its arguments are fetched and, for \<open>link\<close> and
  \<open>unlink\<close>, the first path lookup succeeds; for the tag calls the descriptor is one of
  an open file; an \<open>open\<close> is backed by \<open>create\<close> when \<open>O_CREATE\<close> is given.
\<close>

fun entry_valid :: "kparam \<Rightarrow> syscall \<Rightarrow> kstate \<Rightarrow> bool" where
  "entry_valid kp (Link a0 a1) s =
     (case (a0, a1) of (Some old, Some new) \<Rightarrow> resolve s old \<noteq> None | _ \<Rightarrow> False)"
| "entry_valid kp (Unlink a0) s =
     (case a0 of Some path \<Rightarrow> resolve_parent s path \<noteq> None | None \<Rightarrow> False)"
| "entry_valid kp (Open a0 a1) s =
     (case (a0, a1) of (Some path, Some omode) \<Rightarrow> omode AND O_CREATE kp \<noteq> 0 | _ \<Rightarrow> False)"
| "entry_valid kp (Mkdir a0) s = (a0 \<noteq> None)"
| "entry_valid kp (Mknod a0 a1 a2) s = (a0 \<noteq> None \<and> a1 \<noteq> None \<and> a2 \<noteq> None)"
| "entry_valid kp (Symlink a0 a1) s = (a0 \<noteq> None \<and> a1 \<noteq> None)"
| "entry_valid kp (Ftag a0 a1 a2) s = (argfd kp a0 s \<noteq> None \<and> a1 \<noteq> None \<and> a2 \<noteq> None)"
| "entry_valid kp (Funtag a0 a1) s = (argfd kp a0 s \<noteq> None \<and> a1 \<noteq> None)"
| "entry_valid kp (Gettag a0 a1 a2) s = (argfd kp a0 s \<noteq> None \<and> a1 \<noteq> None \<and> a2 \<noteq> None)"

text \<open>
  Whether a call reaches \<open>begin_trans\<close>: \<open>sys_mkdir\<close> and \<open>sys_mknod\<close> call it before
  they fetch their arguments, the other calls after their entry validation.
\<close>

fun opens_txn :: "kparam \<Rightarrow> syscall \<Rightarrow> kstate \<Rightarrow> bool" where
  "opens_txn kp (Mkdir a0) s = True"
| "opens_txn kp (Mknod a0 a1 a2) s = True"
| "opens_txn kp c s = entry_valid kp c s"

text \<open>
  The effects a call adds, and whether a list of effects lies inside one single
  transaction: it starts with \<open>BeginTrans\<close>, ends with \<open>CommitTrans\<close>, and has no bracket
  in between.
\<close>

definition run_events :: "kparam \<Rightarrow> syscall \<Rightarrow> kstate \<Rightarrow> event list option" where
  "run_events kp c s = map_option (new_events s) (run kp c s)"

definition in_one_txn :: "event list \<Rightarrow> bool" where
  "in_one_txn evs =
     (case evs of
        [] \<Rightarrow> False
      | e # es \<Rightarrow> e = BeginTrans \<and> es \<noteq> [] \<and> last es = CommitTrans \<and> txn_events (butlast es) = [])"

text \<open>\<open>sys_symlink\<close> followed by \<open>sys_readlink\<close> of the same path.\<close>

definition symlink_then_readlink ::
  "kparam \<Rightarrow> string \<Rightarrow> string \<Rightarrow> string \<Rightarrow> 32 word \<Rightarrow> kstate \<Rightarrow> (int \<times> string) res" where
  "symlink_then_readlink kp target path buf bufsiz s =
     (case sys_symlink kp (Some target) (Some path) s of
        Halt msg \<Rightarrow> Halt msg
      | Ret r s1 \<Rightarrow> sys_readlink (Some path) (Some buf) (Some bufsiz) s1)"

section \<open>Properties of the collaborators\<close>

lemma ret_valD: "ret_val r = Some v \<Longrightarrow> \<exists>s'. r = Ret v s'"
  by (cases r) (simp_all add: ret_val_def)

lemma halt_msgD: "halt_msg r = Some msg \<Longrightarrow> r = Halt msg"
  by (cases r) (simp_all add: halt_msg_def)

declare fdalloc_from.simps [simp del]
declare open_follow.simps [simp del]
declare readlink_follow.simps [simp del]
declare isdirempty_from.simps [simp del]

lemma fsview_eqD:
  assumes "fsview s' = fsview s"
  shows "type (icache s' ip) = type (icache s ip)"
    and "size_i (icache s' ip) = size_i (icache s ip)"
    and "content s' = content s" and "cwd s' = cwd s"
  using assms by (auto simp: fsview_def dest: fun_cong)

lemma nslots_fsview:
  assumes "fsview s' = fsview s"
  shows "nslots s' dp = nslots s dp"
  using fsview_eqD [OF assms] by (simp add: nslots_def)

lemma lookup_slot_fsview:
  assumes "fsview s' = fsview s"
  shows "lookup_slot s' dp n = lookup_slot s dp n"
  using fsview_eqD [OF assms] nslots_fsview [OF assms] by (simp add: lookup_slot_def)

lemma free_slot_fsview:
  assumes "fsview s' = fsview s"
  shows "free_slot s' dp = free_slot s dp"
  using fsview_eqD [OF assms] nslots_fsview [OF assms]
  by (simp add: free_slot_def split: option.splits)

lemma walk_fsview:
  assumes "fsview s' = fsview s"
  shows "walk s' ip ns = walk s ip ns"
proof (induction ns arbitrary: ip)
  case Nil
  show ?case by simp
next
  case (Cons n ns)
  show ?case
    using Cons.IH fsview_eqD [OF assms] lookup_slot_fsview [OF assms]
    by (simp split: option.splits)
qed

lemma start_of_fsview:
  assumes "fsview s' = fsview s"
  shows "start_of s' p = start_of s p"
  using fsview_eqD [OF assms] by (simp add: start_of_def split: list.splits)

lemma resolve_fsview:
  assumes "fsview s' = fsview s"
  shows "resolve s' p = resolve s p"
  by (simp add: resolve_def walk_fsview [OF assms] start_of_fsview [OF assms])

lemma resolve_parent_fsview:
  assumes "fsview s' = fsview s"
  shows "resolve_parent s' p = resolve_parent s p"
  using fsview_eqD [OF assms]
  by (simp add: resolve_parent_def walk_fsview [OF assms] start_of_fsview [OF assms]
      split: option.splits)

lemma fsview_prims [simp]:
  "fsview (begin_trans s) = fsview s"
  "fsview (commit_trans s) = fsview s"
  "fsview (ilock ip s) = fsview s"
  "fsview (iunlock ip s) = fsview s"
  "fsview (iget ip s) = fsview s"
  "fsview (iput ip s) = fsview s"
  "fsview (iunlockput ip s) = fsview s"
  "fsview (iupdate ip s) = fsview s"
  by (auto simp: fsview_def begin_trans_def commit_trans_def ilock_def iunlock_def iget_def
      iput_def iunlockput_def iupdate_def)

lemma fsview_istore [simp]:
  "(\<And>i. type (f i) = type i \<and> size_i (f i) = size_i i) \<Longrightarrow> fsview (istore ip f s) = fsview s"
  by (auto simp: fsview_def istore_def)


lemmas resolve_prims [simp] = fsview_prims [THEN resolve_fsview]
lemmas resolve_parent_prims [simp] = fsview_prims [THEN resolve_parent_fsview]
lemmas lookup_slot_prims [simp] = fsview_prims [THEN lookup_slot_fsview]
lemmas free_slot_prims [simp] = fsview_prims [THEN free_slot_fsview]
lemmas nslots_prims [simp] = fsview_prims [THEN nslots_fsview]
lemmas resolve_istore [simp] = fsview_istore [THEN resolve_fsview]
lemmas resolve_parent_istore [simp] = fsview_istore [THEN resolve_parent_fsview]
lemmas lookup_slot_istore [simp] = fsview_istore [THEN lookup_slot_fsview]
lemmas free_slot_istore [simp] = fsview_istore [THEN free_slot_fsview]
lemmas nslots_istore [simp] = fsview_istore [THEN nslots_fsview]

lemma disk_prims [simp]:
  "disk (begin_trans s) = disk s"
  "disk (commit_trans s) = disk s"
  "disk (ilock ip s) = disk s"
  "disk (iunlock ip s) = disk s"
  "disk (iget ip s) = disk s"
  "disk (iput ip s) = disk s"
  "disk (iunlockput ip s) = disk s"
  "disk (iupdate ip s) j = (if j = ip then to_dinode (icache s ip) else disk s j)"
  "disk (istore ip f s) = disk s"
  by (simp_all add: begin_trans_def commit_trans_def ilock_def iunlock_def iget_def iput_def
      iunlockput_def iupdate_def istore_def)

lemma icache_prims [simp]:
  "icache (begin_trans s) = icache s"
  "icache (commit_trans s) = icache s"
  "icache (iupdate ip s) = icache s"
  by (simp_all add: begin_trans_def commit_trans_def iupdate_def)

lemma inode_prims:
  "icache (ilock ip s) j = (if j = ip then (icache s ip)\<lparr>busy := True\<rparr> else icache s j)"
  "icache (iunlock ip s) j = (if j = ip then (icache s ip)\<lparr>busy := False\<rparr> else icache s j)"
  "icache (iget ip s) j = (if j = ip then (icache s ip)\<lparr>ref := ref (icache s ip) + 1\<rparr> else icache s j)"
  "icache (iput ip s) j = (if j = ip then (icache s ip)\<lparr>ref := ref (icache s ip) - 1\<rparr> else icache s j)"
  by (simp_all add: ilock_def iunlock_def iget_def iput_def)

lemma icache_iunlockput:
  "icache (iunlockput ip s) j =
     (if j = ip then (icache s ip)\<lparr>busy := False, ref := ref (icache s ip) - 1\<rparr> else icache s j)"
  by (simp add: iunlockput_def iput_def iunlock_def)

lemma icache_istore [simp]:
  "icache (istore ip f s) j = (if j = ip then f (icache s ip) else icache s j)"
  by (simp add: istore_def)

lemma type_frame [simp]:
  "type (icache (ilock ip s) j) = type (icache s j)"
  "type (icache (iunlock ip s) j) = type (icache s j)"
  "type (icache (iget ip s) j) = type (icache s j)"
  "type (icache (iput ip s) j) = type (icache s j)"
  "type (icache (iunlockput ip s) j) = type (icache s j)"
  by (simp_all add: inode_prims icache_iunlockput)

lemma size_frame [simp]:
  "size_i (icache (ilock ip s) j) = size_i (icache s j)"
  "size_i (icache (iunlock ip s) j) = size_i (icache s j)"
  "size_i (icache (iget ip s) j) = size_i (icache s j)"
  "size_i (icache (iput ip s) j) = size_i (icache s j)"
  "size_i (icache (iunlockput ip s) j) = size_i (icache s j)"
  by (simp_all add: inode_prims icache_iunlockput)

lemma nlink_frame [simp]:
  "nlink (icache (ilock ip s) j) = nlink (icache s j)"
  "nlink (icache (iunlock ip s) j) = nlink (icache s j)"
  "nlink (icache (iget ip s) j) = nlink (icache s j)"
  "nlink (icache (iput ip s) j) = nlink (icache s j)"
  "nlink (icache (iunlockput ip s) j) = nlink (icache s j)"
  by (simp_all add: inode_prims icache_iunlockput)

lemma symlnk_frame [simp]:
  "symlnk (icache (ilock ip s) j) = symlnk (icache s j)"
  "symlnk (icache (iunlock ip s) j) = symlnk (icache s j)"
  "symlnk (icache (iget ip s) j) = symlnk (icache s j)"
  "symlnk (icache (iput ip s) j) = symlnk (icache s j)"
  "symlnk (icache (iunlockput ip s) j) = symlnk (icache s j)"
  by (simp_all add: inode_prims icache_iunlockput)

lemma addrs_frame [simp]:
  "addrs (icache (ilock ip s) j) = addrs (icache s j)"
  "addrs (icache (iunlock ip s) j) = addrs (icache s j)"
  "addrs (icache (iget ip s) j) = addrs (icache s j)"
  "addrs (icache (iput ip s) j) = addrs (icache s j)"
  "addrs (icache (iunlockput ip s) j) = addrs (icache s j)"
  by (simp_all add: inode_prims icache_iunlockput)

lemma busy_frame [simp]:
  "busy (icache (ilock ip s) j) = (j = ip \<or> busy (icache s j))"
  "busy (icache (iunlock ip s) j) = (j \<noteq> ip \<and> busy (icache s j))"
  "busy (icache (iget ip s) j) = busy (icache s j)"
  "busy (icache (iput ip s) j) = busy (icache s j)"
  "busy (icache (iunlockput ip s) j) = (j \<noteq> ip \<and> busy (icache s j))"
  by (auto simp: inode_prims icache_iunlockput)

lemma ref_frame [simp]:
  "ref (icache (ilock ip s) j) = ref (icache s j)"
  "ref (icache (iunlock ip s) j) = ref (icache s j)"
  "ref (icache (iget ip s) j) = (if j = ip then ref (icache s j) + 1 else ref (icache s j))"
  "ref (icache (iput ip s) j) = (if j = ip then ref (icache s j) - 1 else ref (icache s j))"
  "ref (icache (iunlockput ip s) j) = (if j = ip then ref (icache s j) - 1 else ref (icache s j))"
  by (simp_all add: inode_prims icache_iunlockput)

lemma trace_prims [simp]:
  "trace (begin_trans s) = trace s @ [BeginTrans]"
  "trace (commit_trans s) = trace s @ [CommitTrans]"
  "trace (ilock ip s) = trace s"
  "trace (iunlock ip s) = trace s"
  "trace (iget ip s) = trace s"
  "trace (iput ip s) = trace s"
  "trace (iunlockput ip s) = trace s"
  "trace (iupdate ip s) = trace s @ [IUpdate ip]"
  "trace (istore ip f s) = trace s @ [Store ip]"
  by (simp_all add: begin_trans_def commit_trans_def ilock_def iunlock_def iget_def iput_def
      iunlockput_def iupdate_def istore_def)

lemma ofile_prims [simp]:
  "ofile (begin_trans s) = ofile s"
  "ofile (commit_trans s) = ofile s"
  "ofile (ilock ip s) = ofile s"
  "ofile (iunlock ip s) = ofile s"
  "ofile (iget ip s) = ofile s"
  "ofile (iput ip s) = ofile s"
  "ofile (iunlockput ip s) = ofile s"
  "ofile (iupdate ip s) = ofile s"
  "ofile (istore ip f s) = ofile s"
  by (simp_all add: begin_trans_def commit_trans_def ilock_def iunlock_def iget_def iput_def
      iunlockput_def iupdate_def istore_def)

lemma ftable_prims [simp]:
  "ftable (begin_trans s) = ftable s"
  "ftable (commit_trans s) = ftable s"
  "ftable (ilock ip s) = ftable s"
  "ftable (iunlock ip s) = ftable s"
  "ftable (iget ip s) = ftable s"
  "ftable (iput ip s) = ftable s"
  "ftable (iunlockput ip s) = ftable s"
  "ftable (iupdate ip s) = ftable s"
  "ftable (istore ip f s) = ftable s"
  by (simp_all add: begin_trans_def commit_trans_def ilock_def iunlock_def iget_def iput_def
      iunlockput_def iupdate_def istore_def)

lemma content_prims [simp]:
  "content (begin_trans s) = content s"
  "content (commit_trans s) = content s"
  "content (ilock ip s) = content s"
  "content (iunlock ip s) = content s"
  "content (iget ip s) = content s"
  "content (iput ip s) = content s"
  "content (iunlockput ip s) = content s"
  "content (iupdate ip s) = content s"
  "content (istore ip f s) = content s"
  by (simp_all add: begin_trans_def commit_trans_def ilock_def iunlock_def iget_def iput_def
      iunlockput_def iupdate_def istore_def)

lemma fdalloc_from_cases:
  "fdalloc_from kp fd f s = (- 1, s) \<or>
   (\<exists>n. fd \<le> n \<and> n < NOFILE kp \<and> ofile s n = None \<and>
        fdalloc_from kp fd f s = (int n, s\<lparr>ofile := (ofile s)(n \<mapsto> f)\<rparr>))"
proof (induction kp fd f s rule: fdalloc_from.induct)
  case (1 kp fd f s)
  show ?case
  proof (cases "fd < NOFILE kp")
    case False
    then show ?thesis by (subst fdalloc_from.simps) simp
  next
    case lt: True
    show ?thesis
    proof (cases "ofile s fd = None")
      case True
      have "fdalloc_from kp fd f s = (int fd, s\<lparr>ofile := (ofile s)(fd \<mapsto> f)\<rparr>)"
        using lt True by (subst fdalloc_from.simps) simp
      with lt True show ?thesis by blast
    next
      case False
      have e: "fdalloc_from kp fd f s = fdalloc_from kp (fd + 1) f s"
        using lt False by (subst fdalloc_from.simps) auto
      from "1.IH" [OF lt False] show ?thesis
      proof
        assume "fdalloc_from kp (fd + 1) f s = (- 1, s)"
        with e show ?thesis by simp
      next
        assume "\<exists>n. fd + 1 \<le> n \<and> n < NOFILE kp \<and> ofile s n = None \<and>
          fdalloc_from kp (fd + 1) f s = (int n, s\<lparr>ofile := (ofile s)(n \<mapsto> f)\<rparr>)"
        then obtain n where "fd + 1 \<le> n" "n < NOFILE kp" "ofile s n = None"
          "fdalloc_from kp (fd + 1) f s = (int n, s\<lparr>ofile := (ofile s)(n \<mapsto> f)\<rparr>)"
          by blast
        with e have "fd \<le> n \<and> n < NOFILE kp \<and> ofile s n = None \<and>
          fdalloc_from kp fd f s = (int n, s\<lparr>ofile := (ofile s)(n \<mapsto> f)\<rparr>)"
          by simp
        then show ?thesis by blast
      qed
    qed
  qed
qed


lemma fdalloc_cases:
  "fdalloc kp f s = (- 1, s) \<or>
   (\<exists>n. n < NOFILE kp \<and> ofile s n = None \<and>
        fdalloc kp f s = (int n, s\<lparr>ofile := (ofile s)(n \<mapsto> f)\<rparr>))"
  using fdalloc_from_cases [of kp 0 f s] by (auto simp: fdalloc_def)

lemma filealloc_cases:
  "filealloc s = (None, s) \<or>
   (\<exists>i. i < length (ftable s) \<and> f_ref (ftable s ! i) = 0 \<and>
        filealloc s = (Some i, s\<lparr>ftable := (ftable s)[i := (ftable s ! i)\<lparr>f_ref := 1\<rparr>]\<rparr>))"
proof (cases "find (\<lambda>i. f_ref (ftable s ! i) = 0) [0 ..< length (ftable s)]")
  case None
  then show ?thesis by (simp add: filealloc_def)
next
  case (Some i)
  then have "i < length (ftable s) \<and> f_ref (ftable s ! i) = 0"
    by (auto simp: find_Some_iff)
  with Some show ?thesis by (simp add: filealloc_def)
qed

lemma fileclose_frame [simp]:
  "content (fileclose f s) = content s"
  "trace (fileclose f s) = trace s"
  "ofile (fileclose f s) = ofile s"
  "nlink (icache (fileclose f s) j) = nlink (icache s j)"
  "type (icache (fileclose f s) j) = type (icache s j)"
  "size_i (icache (fileclose f s) j) = size_i (icache s j)"
  "symlnk (icache (fileclose f s) j) = symlnk (icache s j)"
  "addrs (icache (fileclose f s) j) = addrs (icache s j)"
  by (simp_all add: fileclose_def Let_def)

lemma open_follow_plain: "\<not> symlnk (icache s ip) \<Longrightarrow> open_follow 0 ip s = LDone 0 ip s"
  by (subst open_follow.simps) simp

lemma put_de_frame [simp]:
  "trace (put_de ip de off n s) = trace s @ [WriteI ip off]"
  "ofile (put_de ip de off n s) = ofile s"
  "ftable (put_de ip de off n s) = ftable s"
  "cwd (put_de ip de off n s) = cwd s"
  "ninodes (put_de ip de off n s) = ninodes s"
  "icache (put_de ip de off n s) j =
     (if j = ip then (icache s ip)\<lparr>size_i := max (size_i (icache s ip)) (off + n)\<rparr>
      else icache s j)"
  "disk (put_de ip de off n s) j =
     (if j = ip then to_dinode ((icache s ip)\<lparr>size_i := max (size_i (icache s ip)) (off + n)\<rparr>)
      else disk s j)"
  "content (put_de ip de off n s) j =
     (if j = ip then (content s ip)(off div sizeof_de := de) else content s j)"
  by (simp_all add: put_de_def Let_def)

lemma alloc_inode_frame [simp]:
  "trace (alloc_inode ip t s) = trace s @ [IAlloc ip]"
  "ofile (alloc_inode ip t s) = ofile s"
  "ftable (alloc_inode ip t s) = ftable s"
  "cwd (alloc_inode ip t s) = cwd s"
  "ninodes (alloc_inode ip t s) = ninodes s"
  "content (alloc_inode ip t s) = content s"
  "icache (alloc_inode ip t s) j = (if j = ip then fresh_inode t else icache s j)"
  "disk (alloc_inode ip t s) j = (if j = ip then to_dinode (fresh_inode t) else disk s j)"
  by (simp_all add: alloc_inode_def)

lemma ialloc_cases:
  "ialloc d t s = (None, s) \<or>
   (\<exists>i. 1 \<le> i \<and> i < ninodes s \<and> type (icache s (d, i)) = T_NONE \<and>
        ialloc d t s = (Some (d, i), alloc_inode (d, i) t s))"
proof (cases "find (\<lambda>i. type (icache s (d, i)) = T_NONE) [1 ..< ninodes s]")
  case None
  then show ?thesis by (simp add: ialloc_def)
next
  case (Some i)
  then have "1 \<le> i \<and> i < ninodes s \<and> type (icache s (d, i)) = T_NONE"
    by (auto simp: find_Some_iff)
  with Some show ?thesis by (simp add: ialloc_def)
qed

lemma dirlink_absent:
  "lookup_slot s dp name = None \<Longrightarrow>
   dirlink dp name i s =
     (if free_slot s dp * sizeof_de > size_i (icache s dp) then (- 1, s)
      else (0, put_de dp \<lparr>de_inum = i, de_name = name\<rparr> (free_slot s dp * sizeof_de) sizeof_de s))"
  by (simp add: dirlink_def dirlookup_def writei_def)

lemma nslots_empty: "size_i (icache s dp) = 0 \<Longrightarrow> nslots s dp = 0"
  by (simp add: nslots_def sizeof_de_def)

lemma nslots_one: "size_i (icache s dp) = sizeof_de \<Longrightarrow> nslots s dp = 1"
  by (simp add: nslots_def sizeof_de_def)

lemma resolve_parent_dir:
  "resolve_parent s path = Some (dp, name) \<Longrightarrow> type (icache s dp) = T_DIR"
  by (auto simp: resolve_parent_def split: if_splits option.splits)

lemma lookup_slot_SomeD:
  assumes "lookup_slot s dp name = Some k"
  shows "k * sizeof_de < size_i (icache s dp)"
    and "de_inum (content s dp k) \<noteq> 0"
    and "de_name (content s dp k) = name"
proof -
  from assms have "k < nslots s dp" and "de_inum (content s dp k) \<noteq> 0"
    and "namecmp name (de_name (content s dp k)) = 0"
    by (auto simp: lookup_slot_def find_Some_iff)
  then show "k * sizeof_de < size_i (icache s dp)" "de_inum (content s dp k) \<noteq> 0"
    "de_name (content s dp k) = name"
    by (auto simp: nslots_def sizeof_de_def namecmp_def split: if_splits)
qed

lemma readi_full:
  "off + sizeof_de \<le> size_i (icache s dp) \<Longrightarrow>
   readi dp off sizeof_de s = (int sizeof_de, content s dp (off div sizeof_de))"
  by (simp add: readi_def)

lemma isdirempty_from_eq:
  assumes "sizeof_de dvd size_i (icache s dp)" and "sizeof_de dvd off"
  shows "isdirempty_from off dp s =
           Inr (if (\<forall>k. off \<le> k * sizeof_de \<and> k * sizeof_de < size_i (icache s dp)
                       \<longrightarrow> de_inum (content s dp k) = 0)
                then 1 else 0)"
  using assms
proof (induction off dp s rule: isdirempty_from.induct)
  case (1 off dp s)
  show ?case
  proof (cases "off < size_i (icache s dp)")
    case False
    then show ?thesis
      by (subst isdirempty_from.simps) auto
  next
    case lt: True
    from "1.prems" obtain m n where m: "off = sizeof_de * m" and n: "size_i (icache s dp) = sizeof_de * n"
      by (auto simp: dvd_def)
    with lt have mn: "m < n" by (simp add: sizeof_de_def)
    then have full: "off + sizeof_de \<le> size_i (icache s dp)"
      using m n by (simp add: sizeof_de_def)
    have od: "off div sizeof_de = m"
      using m by (simp add: sizeof_de_def)
    show ?thesis
    proof (cases "de_inum (content s dp m) = 0")
      case False
      have "isdirempty_from off dp s = Inr 0"
        using lt full False od by (subst isdirempty_from.simps) (simp add: readi_full)
      moreover have "\<not> (\<forall>k. off \<le> k * sizeof_de \<and> k * sizeof_de < size_i (icache s dp)
                       \<longrightarrow> de_inum (content s dp k) = 0)"
        using False m lt by (auto intro!: exI [of _ m] simp: mult.commute)
      ultimately show ?thesis by simp
    next
      case True
      have step: "isdirempty_from off dp s = isdirempty_from (off + sizeof_de) dp s"
        using lt full True od by (subst isdirempty_from.simps) (simp add: readi_full)
      have rd: "readi dp off sizeof_de s = (int sizeof_de, content s dp m)"
        using full od by (simp add: readi_full)
      have ih: "isdirempty_from (off + sizeof_de) dp s =
           Inr (if (\<forall>k. off + sizeof_de \<le> k * sizeof_de \<and> k * sizeof_de < size_i (icache s dp)
                       \<longrightarrow> de_inum (content s dp k) = 0)
                then 1 else 0)"
        using "1.IH" [OF lt rd [symmetric]] True "1.prems" by simp
      have "(\<forall>k. off \<le> k * sizeof_de \<and> k * sizeof_de < size_i (icache s dp)
                       \<longrightarrow> de_inum (content s dp k) = 0)
          = (\<forall>k. off + sizeof_de \<le> k * sizeof_de \<and> k * sizeof_de < size_i (icache s dp)
                       \<longrightarrow> de_inum (content s dp k) = 0)"
      proof (intro iffI allI impI)
        fix k
        assume a: "\<forall>k. off \<le> k * sizeof_de \<and> k * sizeof_de < size_i (icache s dp)
                       \<longrightarrow> de_inum (content s dp k) = 0"
          and "off + sizeof_de \<le> k * sizeof_de \<and> k * sizeof_de < size_i (icache s dp)"
        then show "de_inum (content s dp k) = 0" by simp
      next
        fix k
        assume a: "\<forall>k. off + sizeof_de \<le> k * sizeof_de \<and> k * sizeof_de < size_i (icache s dp)
                       \<longrightarrow> de_inum (content s dp k) = 0"
          and b: "off \<le> k * sizeof_de \<and> k * sizeof_de < size_i (icache s dp)"
        show "de_inum (content s dp k) = 0"
        proof (cases "k = m")
          case True
          with \<open>de_inum (content s dp m) = 0\<close> show ?thesis by simp
        next
          case False
          with b m have "off + sizeof_de \<le> k * sizeof_de"
            by (simp add: sizeof_de_def)
          with a b show ?thesis by simp
        qed
      qed
      with step ih show ?thesis by simp
    qed
  qed
qed


lemma ialloc_find:
  assumes "find (\<lambda>i. type (icache s (d, i)) = T_NONE) [1 ..< ninodes s] = Some i"
  shows "1 \<le> i" and "type (icache s (d, i)) = T_NONE"
    and "ialloc d t s = (Some (d, i), alloc_inode (d, i) t s)"
proof -
  from assms show "1 \<le> i" and "type (icache s (d, i)) = T_NONE"
    by (auto simp: find_Some_iff)
  from assms show "ialloc d t s = (Some (d, i), alloc_inode (d, i) t s)"
    by (simp add: ialloc_def)
qed

lemma create_dir_run:
  assumes p: "resolve_parent s path = Some (dp, name)"
    and l: "lookup_slot s dp name = None"
    and f: "find (\<lambda>i. type (icache s (dev dp, i)) = T_NONE) [1 ..< ninodes s] = Some i"
    and jp: "jp = (dev dp, i)"
  shows "(\<not> free_slot s dp * sizeof_de \<le> size_i (icache s dp) \<longrightarrow>
            create path T_DIR mj mn s = Halt ''create: dirlink'')
       \<and> (free_slot s dp * sizeof_de \<le> size_i (icache s dp) \<longrightarrow>
            (\<exists>s'. create path T_DIR mj mn s = Ret (Some jp) s' \<and> jp \<noteq> dp
       \<and> nlink (icache s' jp) = 1
       \<and> nlink (icache s' dp) = nlink (icache s dp) + 1
       \<and> d_nlink (disk s' dp) = nlink (icache s dp) + 1
       \<and> content s' jp 0 = \<lparr>de_inum = inum jp, de_name = ''.''\<rparr>
       \<and> content s' jp 1 = \<lparr>de_inum = inum dp, de_name = ''..''\<rparr>
       \<and> content s' dp (free_slot s dp) = \<lparr>de_inum = inum jp, de_name = name\<rparr>
       \<and> new_events s s' =
            [IAlloc jp, Store jp, Store jp, Store jp, IUpdate jp, Store dp, IUpdate dp,
             WriteI jp 0, WriteI jp sizeof_de, WriteI dp (free_slot s dp * sizeof_de)]))"
proof -
  have dpt: "type (icache s dp) = T_DIR"
    using p by (rule resolve_parent_dir)
  define s0 where "s0 = ilock dp (iget dp s)"
  have s0: "fsview s0 = fsview s" "trace s0 = trace s" "nlink (icache s0 dp) = nlink (icache s dp)"
    "\<And>j. type (icache s0 j) = type (icache s j)" "\<And>j. size_i (icache s0 j) = size_i (icache s j)"
    "content s0 = content s"
    by (simp_all add: s0_def)
  have n0: "ninodes s0 = ninodes s"
    by (simp add: s0_def ilock_def iget_def)
  have f0: "find (\<lambda>i. type (icache s0 (dev dp, i)) = T_NONE) [1 ..< ninodes s0] = Some i"
    using f s0 n0 by simp
  define s1 where "s1 = alloc_inode jp T_DIR s0"
  from ialloc_find(1,2) [OF f0] ialloc_find(3) [OF f0, of T_DIR]
  have i: "1 \<le> i" "type (icache s0 jp) = T_NONE"
    and a': "ialloc (dev dp) T_DIR s0 = (Some jp, s1)"
    by (simp_all add: jp s1_def)
  have ne: "jp \<noteq> dp"
    using i s0 dpt by auto
  define s2 where "s2 = iupdate jp (istore jp (\<lambda>i. i\<lparr>nlink := 1\<rparr>) (istore jp (\<lambda>i. i\<lparr>minor := mn\<rparr>)
     (istore jp (\<lambda>i. i\<lparr>major := mj\<rparr>) (ilock jp s1))))"
  define s3 where "s3 = iupdate dp (istore dp (\<lambda>i. i\<lparr>nlink := nlink i + 1\<rparr>) s2)"
  have c1: "create path T_DIR mj mn s =
      (case create_dots dp jp s2 of
         Halt msg \<Rightarrow> Halt msg
       | Ret u s \<Rightarrow> create_entry dp name jp s)"
    using p l a'
    by (simp add: create_def nameiparent_def dirlookup_def s0_def [symmetric] s2_def Let_def)
  have s3_jp: "size_i (icache s3 jp) = 0" "content s3 = content s" "nlink (icache s3 jp) = 1"
    "nlink (icache s3 dp) = nlink (icache s dp) + 1"
    "d_nlink (disk s3 dp) = nlink (icache s dp) + 1"
    "size_i (icache s3 dp) = size_i (icache s dp)"
    "trace s3 = trace s @ [IAlloc jp, Store jp, Store jp, Store jp, IUpdate jp, Store dp, IUpdate dp]"
    using ne s0 by (simp_all add: s3_def s2_def s1_def fresh_inode_def to_dinode_def inode_prims)
  define s4 where "s4 = put_de jp \<lparr>de_inum = inum jp, de_name = ''.''\<rparr> 0 sizeof_de s3"
  have d1: "dirlink jp ''.'' (inum jp) s3 = (0, s4)"
    using s3_jp nslots_empty [of s3 jp]
    by (simp add: dirlink_absent lookup_slot_def free_slot_def s4_def)
  have s4_jp: "size_i (icache s4 jp) = sizeof_de"
    "content s4 jp 0 = \<lparr>de_inum = inum jp, de_name = ''.''\<rparr>"
    using s3_jp by (simp_all add: s4_def)
  define s5 where "s5 = put_de jp \<lparr>de_inum = inum dp, de_name = ''..''\<rparr> sizeof_de sizeof_de s4"
  have d2: "dirlink jp ''..'' (inum dp) s4 = (0, s5)"
    using s4_jp nslots_one [of s4 jp] i
    by (simp add: dirlink_absent lookup_slot_def free_slot_def s5_def namecmp_def jp)
  have cd: "create_dots dp jp s2 = Ret () s5"
    using d1 d2 by (simp add: create_dots_def s3_def [symmetric] Let_def)
  have ns: "nslots s5 dp = nslots s dp" "content s5 dp = content s dp"
    "size_i (icache s5 dp) = size_i (icache s dp)"
    using ne s3_jp by (simp_all add: nslots_def s5_def s4_def)
  have s5_dp: "lookup_slot s5 dp name = None" "free_slot s5 dp = free_slot s dp"
    using l ns by (simp_all add: lookup_slot_def free_slot_def cong: option.case_cong)
  define s6 where "s6 = put_de dp \<lparr>de_inum = inum jp, de_name = name\<rparr> (free_slot s dp * sizeof_de) sizeof_de s5"
  have fin: "create path T_DIR mj mn s =
      (if free_slot s dp * sizeof_de \<le> size_i (icache s dp)
       then Ret (Some jp) (iunlockput dp s6) else Halt ''create: dirlink'')"
    using c1 cd s5_dp ns by (simp add: create_entry_def dirlink_absent s6_def)
  have sz: "sizeof_de div sizeof_de = 1" "(free_slot s dp * sizeof_de) div sizeof_de = free_slot s dp"
    by (simp_all add: sizeof_de_def)
  show ?thesis
    using fin ne s3_jp sz
    by (simp add: s6_def s5_def s4_def new_events_def to_dinode_def)
qed

lemma lview_fsview: "lview s' = lview s \<Longrightarrow> fsview s' = fsview s"
  by (simp add: lview_def)

lemma lview_eqD:
  assumes "lview s' = lview s"
  shows "symlnk (icache s' ip) = symlnk (icache s ip)"
    and "addrs (icache s' ip) = addrs (icache s ip)"
    and "resolve s' p = resolve s p"
proof -
  from assms show "symlnk (icache s' ip) = symlnk (icache s ip)"
    and "addrs (icache s' ip) = addrs (icache s ip)"
    by (auto simp: lview_def dest: fun_cong)
  from assms show "resolve s' p = resolve s p"
    by (intro resolve_fsview lview_fsview)
qed

lemma chain_lview:
  assumes "lview s' = lview s"
  shows "chain s' ip n = chain s ip n"
proof (induction n arbitrary: ip)
  case 0
  show ?case by simp
next
  case (Suc n)
  show ?case
    using Suc.IH lview_eqD [OF assms] by (simp split: option.splits)
qed

lemma lview_prims [simp]:
  "lview (begin_trans s) = lview s"
  "lview (commit_trans s) = lview s"
  "lview (ilock ip s) = lview s"
  "lview (iunlock ip s) = lview s"
  "lview (iget ip s) = lview s"
  "lview (iput ip s) = lview s"
  "lview (iunlockput ip s) = lview s"
  "lview (iupdate ip s) = lview s"
  by (simp_all add: lview_def)

lemma chain_Suc_symlnk:
  "chain s ip (Suc n) = Some t \<Longrightarrow> symlnk (icache s ip)"
  by (simp split: if_splits)

lemma open_follow_depth:
  assumes "chain s ip d = Some t" and "\<not> symlnk (icache s t)" and "i + d < 16"
  shows "\<exists>s'. open_follow i ip s = LDone (i + d) t s' \<and> lview s' = lview s
           \<and> ftable s' = ftable s \<and> ofile s' = ofile s \<and> trace s' = trace s"
  using assms
proof (induction d arbitrary: i ip s)
  case 0
  then show ?case
    by (subst open_follow.simps) simp
next
  case (Suc d)
  from Suc.prems(1) obtain t1 where sl: "symlnk (icache s ip)"
    and r: "resolve s (addrs (icache s ip)) = Some t1" and c: "chain s t1 d = Some t"
    by (auto split: if_splits option.splits)
  define s1 where "s1 = ilock t1 (iunlock ip (iget t1 s))"
  have v: "lview s1 = lview s" "ftable s1 = ftable s" "ofile s1 = ofile s" "trace s1 = trace s"
    by (simp_all add: s1_def)
  have step: "open_follow i ip s = open_follow (i + 1) t1 s1"
    using sl r Suc.prems(3) by (subst open_follow.simps) (simp add: namei_def s1_def)
  have "chain s1 t1 d = Some t" "\<not> symlnk (icache s1 t)"
    using c Suc.prems(2) chain_lview [OF v(1)] lview_eqD(1) [OF v(1)] by simp_all
  from Suc.IH [OF this, of "i + 1"] Suc.prems(3) step v show ?case
    by auto
qed

lemma open_follow_bound:
  assumes "chain s ip n = Some t" and "i + n = 16"
  shows "\<exists>s'. open_follow i ip s = LDone 16 t s'"
  using assms
proof (induction n arbitrary: i ip s)
  case 0
  then show ?case
    by (subst open_follow.simps) simp
next
  case (Suc n)
  from Suc.prems(1) obtain t1 where sl: "symlnk (icache s ip)"
    and r: "resolve s (addrs (icache s ip)) = Some t1" and c: "chain s t1 n = Some t"
    by (auto split: if_splits option.splits)
  define s1 where "s1 = ilock t1 (iunlock ip (iget t1 s))"
  have v: "lview s1 = lview s"
    by (simp add: s1_def)
  have step: "open_follow i ip s = open_follow (i + 1) t1 s1"
    using sl r Suc.prems(2) by (subst open_follow.simps) (simp add: namei_def s1_def)
  have "chain s1 t1 n = Some t"
    using c chain_lview [OF v] by simp
  from Suc.IH [OF this, of "i + 1"] Suc.prems(2) step show ?case
    by simp
qed

lemma filealloc_free:
  assumes "i < length (ftable s)" and "f_ref (ftable s ! i) = 0"
  shows "\<exists>f. f < length (ftable s) \<and>
           filealloc s = (Some f, s\<lparr>ftable := (ftable s)[f := (ftable s ! f)\<lparr>f_ref := 1\<rparr>]\<rparr>)"
proof -
  from assms have "find (\<lambda>i. f_ref (ftable s ! i) = 0) [0 ..< length (ftable s)] \<noteq> None"
    by (auto simp: find_None_iff)
  with filealloc_cases [of s] show ?thesis
    by (auto simp: filealloc_def)
qed

lemma fdalloc_from_free:
  "fd \<le> n \<Longrightarrow> n < NOFILE kp \<Longrightarrow> ofile s n = None \<Longrightarrow> fdalloc_from kp fd f s \<noteq> (- 1, s)"
proof (induction kp fd f s rule: fdalloc_from.induct)
  case (1 kp fd f s)
  from "1.prems" have lt: "fd < NOFILE kp" by simp
  show ?case
  proof (cases "ofile s fd = None")
    case True
    with lt show ?thesis by (subst fdalloc_from.simps) simp
  next
    case False
    with "1.prems" have "fd + 1 \<le> n"
      by (cases "fd = n") auto
    from "1.IH" [OF lt False this "1.prems"(2,3)] lt False show ?thesis
      by (subst fdalloc_from.simps) auto
  qed
qed

lemma fdalloc_free:
  assumes "n < NOFILE kp" and "ofile s n = None"
  shows "\<exists>m. m < NOFILE kp \<and> ofile s m = None \<and>
           fdalloc kp f s = (int m, s\<lparr>ofile := (ofile s)(m \<mapsto> f)\<rparr>)"
  using fdalloc_from_free [of 0 n kp s f] assms fdalloc_cases [of kp f s]
  by (auto simp: fdalloc_def)

lemma open_file_depth:
  assumes c: "chain s ip d = Some t" and ns: "\<not> symlnk (icache s t)" and d: "d \<le> 15"
    and ff: "i < length (ftable s)" "f_ref (ftable s ! i) = 0"
    and fd: "n < NOFILE kp" "ofile s n = None"
  shows "\<exists>fd f s'. open_file kp omode ip s = Ret (int fd) s' \<and> fd < NOFILE kp
           \<and> ofile s fd = None \<and> ofile s' fd = Some f
           \<and> f_type (ftable s' ! f) = FD_INODE \<and> f_ip (ftable s' ! f) = t"
proof -
  from open_follow_depth [OF c ns, of 0] d
  obtain s1 where l: "open_follow 0 ip s = LDone d t s1"
    and v: "ftable s1 = ftable s" "ofile s1 = ofile s"
    by auto
  from filealloc_free [of i s1] ff v
  obtain f where f: "f < length (ftable s1)"
    and fa: "filealloc s1 = (Some f, s1\<lparr>ftable := (ftable s1)[f := (ftable s1 ! f)\<lparr>f_ref := 1\<rparr>]\<rparr>)"
    by auto
  define s2 where "s2 = s1\<lparr>ftable := (ftable s1)[f := (ftable s1 ! f)\<lparr>f_ref := 1\<rparr>]\<rparr>"
  have v2: "ofile s2 = ofile s" "f < length (ftable s2)"
    using v f by (simp_all add: s2_def)
  from fdalloc_free [of n kp s2 f] fd v2
  obtain m where m: "m < NOFILE kp" "ofile s m = None"
    and fda: "fdalloc kp f s2 = (int m, s2\<lparr>ofile := (ofile s2)(m \<mapsto> f)\<rparr>)"
    by auto
  have "open_file kp omode ip s =
      Ret (int m) ((iunlock t (s2\<lparr>ofile := (ofile s2)(m \<mapsto> f)\<rparr>))
        \<lparr>ftable := (ftable (iunlock t (s2\<lparr>ofile := (ofile s2)(m \<mapsto> f)\<rparr>)))
           [f := (ftable (iunlock t (s2\<lparr>ofile := (ofile s2)(m \<mapsto> f)\<rparr>)) ! f)
              \<lparr>f_type := FD_INODE, f_ip := t, f_off := 0,
               readable := \<not> (omode AND O_WRONLY kp \<noteq> 0),
               writable := (omode AND O_WRONLY kp \<noteq> 0) \<or> (omode AND O_RDWR kp \<noteq> 0)\<rparr>]\<rparr>)"
    using l d fa fda by (simp add: open_file_def s2_def [symmetric] Let_def)
  with m v2 show ?thesis
    by (intro exI [of _ m] exI [of _ f]) (simp add: iunlock_def)
qed

lemma open_file_bound:
  assumes "chain s ip 16 = Some t"
  shows "open_file kp omode ip s = Halt ''symbolic link exceeds 16 links ''"
proof -
  from open_follow_bound [OF assms, of 0]
  obtain s1 where "open_follow 0 ip s = LDone 16 t s1"
    by auto
  then show ?thesis
    by (simp add: open_file_def)
qed

lemma sys_open_existing:
  assumes "(omode AND O_CREATE kp = 0 \<and> resolve s path = Some ip
              \<and> \<not> (type (icache s ip) = T_DIR \<and> omode \<noteq> O_RDONLY kp))
         \<or> (omode AND O_CREATE kp \<noteq> 0
              \<and> (\<exists>dp name k. resolve_parent s path = Some (dp, name)
                    \<and> lookup_slot s dp name = Some k
                    \<and> ip = (dev dp, de_inum (content s dp k)))
              \<and> type (icache s ip) = T_FILE)"
  shows "\<exists>s0. sys_open kp (Some path) (Some omode) s = open_file kp omode ip s0
           \<and> lview s0 = lview s \<and> ftable s0 = ftable s \<and> ofile s0 = ofile s"
  using assms
proof
  assume "omode AND O_CREATE kp = 0 \<and> resolve s path = Some ip
              \<and> \<not> (type (icache s ip) = T_DIR \<and> omode \<noteq> O_RDONLY kp)"
  then have "sys_open kp (Some path) (Some omode) s = open_file kp omode ip (ilock ip (iget ip s))"
    by (auto simp: sys_open_def namei_def)
  then show ?thesis
    by (intro exI [of _ "ilock ip (iget ip s)"]) simp
next
  assume a: "omode AND O_CREATE kp \<noteq> 0
              \<and> (\<exists>dp name k. resolve_parent s path = Some (dp, name)
                    \<and> lookup_slot s dp name = Some k
                    \<and> ip = (dev dp, de_inum (content s dp k)))
              \<and> type (icache s ip) = T_FILE"
  then obtain dp name k where p: "resolve_parent s path = Some (dp, name)"
    and l: "lookup_slot s dp name = Some k" and ip: "ip = (dev dp, de_inum (content s dp k))"
    by blast
  define s0 where "s0 = commit_trans (ilock ip (iunlockput dp (iget ip (ilock dp (iget dp (begin_trans s))))))"
  have "create path T_FILE 0 0 (begin_trans s) =
      Ret (Some ip) (ilock ip (iunlockput dp (iget ip (ilock dp (iget dp (begin_trans s))))))"
    using p l ip a by (auto simp: create_def nameiparent_def dirlookup_def Let_def)
  with a have "sys_open kp (Some path) (Some omode) s = open_file kp omode ip s0"
    by (simp add: sys_open_def s0_def)
  then show ?thesis
    by (intro exI [of _ s0]) (simp add: s0_def)
qed

lemma sys_open_bound:
  assumes "(omode AND O_CREATE kp = 0 \<and> resolve s path = Some ip
              \<and> \<not> (type (icache s ip) = T_DIR \<and> omode \<noteq> O_RDONLY kp))
         \<or> (omode AND O_CREATE kp \<noteq> 0
              \<and> (\<exists>dp name k. resolve_parent s path = Some (dp, name)
                    \<and> lookup_slot s dp name = Some k
                    \<and> ip = (dev dp, de_inum (content s dp k)))
              \<and> type (icache s ip) = T_FILE)"
    and "chain s ip 16 = Some t"
  shows "sys_open kp (Some path) (Some omode) s = Halt ''symbolic link exceeds 16 links ''"
proof -
  from sys_open_existing [OF assms(1)]
  obtain s0 where o: "sys_open kp (Some path) (Some omode) s = open_file kp omode ip s0"
    and v: "lview s0 = lview s"
    by blast
  have "chain s0 ip 16 = Some t"
    using assms(2) chain_lview [OF v] by simp
  from open_file_bound [OF this] o show ?thesis
    by simp
qed

lemma chain_symlnk_head:
  "chain s ip n = Some t \<Longrightarrow> symlnk (icache s t) \<Longrightarrow> symlnk (icache s ip)"
  by (cases n) (simp_all split: if_splits)

lemma readlink_follow_last:
  assumes "chain s ip d = Some l" and "symlnk (icache s l)"
    and "resolve s (addrs (icache s l)) = Some t" and "\<not> symlnk (icache s t)"
    and "i + d < 16"
  shows "\<exists>s'. readlink_follow i ip s = LDone (i + d) l s' \<and> lview s' = lview s
           \<and> trace s' = trace s"
  using assms
proof (induction d arbitrary: i ip s)
  case 0
  then show ?case
    by (subst readlink_follow.simps) (simp add: namei_def)
next
  case (Suc d)
  from Suc.prems(1) obtain t1 where sl: "symlnk (icache s ip)"
    and r: "resolve s (addrs (icache s ip)) = Some t1" and c: "chain s t1 d = Some l"
    by (auto split: if_splits option.splits)
  have s1: "symlnk (icache s t1)"
    using c Suc.prems(2) by (rule chain_symlnk_head)
  define s1 where "s1 = ilock t1 (iunlock ip (iget t1 s))"
  have v: "lview s1 = lview s" "trace s1 = trace s"
    by (simp_all add: s1_def)
  have step: "readlink_follow i ip s = readlink_follow (i + 1) t1 s1"
    using r s1 Suc.prems(5) by (subst readlink_follow.simps) (simp add: namei_def s1_def)
  have "chain s1 t1 d = Some l" "symlnk (icache s1 l)"
    "resolve s1 (addrs (icache s1 l)) = Some t" "\<not> symlnk (icache s1 t)"
    using c Suc.prems(2,3,4) chain_lview [OF v(1)] lview_eqD [OF v(1)] by simp_all
  from Suc.IH [OF this, of "i + 1"] Suc.prems(5) step v show ?case
    by auto
qed

lemma readlink_follow_broken:
  assumes "chain s ip d = Some l" and "symlnk (icache s l)"
    and "resolve s (addrs (icache s l)) = None" and "i + d < 16"
  shows "\<exists>s'. readlink_follow i ip s = LRet (- 2) s' \<and> trace s' = trace s"
  using assms
proof (induction d arbitrary: i ip s)
  case 0
  then show ?case
    by (subst readlink_follow.simps) (simp add: namei_def)
next
  case (Suc d)
  from Suc.prems(1) obtain t1 where sl: "symlnk (icache s ip)"
    and r: "resolve s (addrs (icache s ip)) = Some t1" and c: "chain s t1 d = Some l"
    by (auto split: if_splits option.splits)
  have s1: "symlnk (icache s t1)"
    using c Suc.prems(2) by (rule chain_symlnk_head)
  define s1 where "s1 = ilock t1 (iunlock ip (iget t1 s))"
  have v: "lview s1 = lview s" "trace s1 = trace s"
    by (simp_all add: s1_def)
  have step: "readlink_follow i ip s = readlink_follow (i + 1) t1 s1"
    using r s1 Suc.prems(4) by (subst readlink_follow.simps) (simp add: namei_def s1_def)
  have "chain s1 t1 d = Some l" "symlnk (icache s1 l)"
    "resolve s1 (addrs (icache s1 l)) = None"
    using c Suc.prems(2,3) chain_lview [OF v(1)] lview_eqD [OF v(1)] by simp_all
  from Suc.IH [OF this, of "i + 1"] Suc.prems(4) step v show ?case
    by auto
qed

lemma readlink_follow_bound:
  assumes "chain s ip n = Some t" and "symlnk (icache s t)" and "i + n = 16"
  shows "\<exists>s'. readlink_follow i ip s = LDone 16 t s'"
  using assms
proof (induction n arbitrary: i ip s)
  case 0
  then show ?case
    by (subst readlink_follow.simps) simp
next
  case (Suc n)
  from Suc.prems(1) obtain t1 where sl: "symlnk (icache s ip)"
    and r: "resolve s (addrs (icache s ip)) = Some t1" and c: "chain s t1 n = Some t"
    by (auto split: if_splits option.splits)
  have s1: "symlnk (icache s t1)"
    using c Suc.prems(2) by (rule chain_symlnk_head)
  define s1 where "s1 = ilock t1 (iunlock ip (iget t1 s))"
  have v: "lview s1 = lview s"
    by (simp add: s1_def)
  have step: "readlink_follow i ip s = readlink_follow (i + 1) t1 s1"
    using r s1 Suc.prems(3) by (subst readlink_follow.simps) (simp add: namei_def s1_def)
  have "chain s1 t1 n = Some t" "symlnk (icache s1 t)"
    using c Suc.prems(2) chain_lview [OF v] lview_eqD [OF v] by simp_all
  from Suc.IH [OF this, of "i + 1"] Suc.prems(3) step show ?case
    by simp
qed

lemma sys_readlink_start:
  assumes "resolve s path = Some ip" and "symlnk (icache s ip)"
  shows "sys_readlink (Some path) (Some buf) (Some bufsiz) s =
      (case readlink_follow 0 ip (ilock ip (iget ip s)) of
         LRet r s \<Rightarrow> Ret (r, buf) s
       | LDone i ip s \<Rightarrow>
           if i = 16 then Halt ''symbolic link exceeds 16 links ''
           else if type (icache s ip) = T_FILE \<and> symlnk (icache s ip) then
             let buf = safestrcpy buf (addrs (icache s ip)) (sint bufsiz) in
             Ret (int (length buf), buf) (iunlock ip s)
           else Ret (- 1, buf) (iunlock ip s))"
  using assms by (simp add: sys_readlink_def namei_def)

lemma sys_readlink_bound:
  assumes "resolve s path = Some ip" and "chain s ip 16 = Some t" and "symlnk (icache s t)"
  shows "sys_readlink (Some path) (Some buf) (Some bufsiz) s = Halt ''symbolic link exceeds 16 links ''"
proof -
  define s1 where "s1 = ilock ip (iget ip s)"
  have v: "lview s1 = lview s"
    by (simp add: s1_def)
  have "chain s1 ip 16 = Some t" "symlnk (icache s1 t)"
    using assms(2,3) chain_lview [OF v] lview_eqD [OF v] by simp_all
  from readlink_follow_bound [OF this, of 0]
  obtain s2 where "readlink_follow 0 ip s1 = LDone 16 t s2"
    by auto
  moreover have "symlnk (icache s ip)"
    using assms(2,3) by (rule chain_symlnk_head)
  ultimately show ?thesis
    using assms(1) by (simp add: sys_readlink_start s1_def [symmetric])
qed

lemma txn_events_simps [simp]:
  "txn_events [] = []"
  "txn_events (xs @ ys) = txn_events xs @ txn_events ys"
  "txn_events (BeginTrans # xs) = BeginTrans # txn_events xs"
  "txn_events (CommitTrans # xs) = CommitTrans # txn_events xs"
  "txn_events (IAlloc ip # xs) = txn_events xs"
  "txn_events (IUpdate ip # xs) = txn_events xs"
  "txn_events (WriteI ip off # xs) = txn_events xs"
  "txn_events (Store ip # xs) = txn_events xs"
  by (simp_all add: txn_events_def)

lemma txn_prims [simp]:
  "txn (begin_trans s) = txn s @ [BeginTrans]"
  "txn (commit_trans s) = txn s @ [CommitTrans]"
  "txn (ilock ip s) = txn s"
  "txn (iunlock ip s) = txn s"
  "txn (iget ip s) = txn s"
  "txn (iput ip s) = txn s"
  "txn (iunlockput ip s) = txn s"
  "txn (iupdate ip s) = txn s"
  "txn (istore ip f s) = txn s"
  "txn (put_de ip de off n s) = txn s"
  "txn (fileclose fl s) = txn s"
  "txn (s\<lparr>ftable := ft\<rparr>) = txn s"
  "txn (s\<lparr>ofile := ot\<rparr>) = txn s"
  "txn (s\<lparr>tagstore := ts\<rparr>) = txn s"
  by (simp_all add: txn_def)

lemma extends_refl [simp]: "extends s s"
  by (simp add: extends_def)

lemma extends_trans: "extends s s1 \<Longrightarrow> extends s1 s2 \<Longrightarrow> extends s s2"
proof -
  assume a: "extends s s1" and b: "extends s1 s2"
  from a have "length (trace s) \<le> length (trace s1)"
    by (metis extends_def length_take min.cobounded1 min.commute)
  then have "take (length (trace s)) (trace s2) = take (length (trace s)) (take (length (trace s1)) (trace s2))"
    by (simp add: min_def)
  also have "\<dots> = trace s"
    using a b by (simp add: extends_def)
  finally show ?thesis by (simp add: extends_def)
qed

lemma extends_same: "trace s2 = trace s1 \<Longrightarrow> extends s s1 \<Longrightarrow> extends s s2"
  by (simp add: extends_def)

lemma extends_app: "trace s2 = trace s1 @ evs \<Longrightarrow> extends s s1 \<Longrightarrow> extends s s2"
proof -
  assume a: "trace s2 = trace s1 @ evs" and b: "extends s s1"
  have "extends s1 s2" using a by (simp add: extends_def)
  with b show ?thesis by (rule extends_trans)
qed

lemma extends_intros:
  "extends s s1 \<Longrightarrow> extends s (begin_trans s1)"
  "extends s s1 \<Longrightarrow> extends s (commit_trans s1)"
  "extends s s1 \<Longrightarrow> extends s (ilock ip s1)"
  "extends s s1 \<Longrightarrow> extends s (iunlock ip s1)"
  "extends s s1 \<Longrightarrow> extends s (iget ip s1)"
  "extends s s1 \<Longrightarrow> extends s (iput ip s1)"
  "extends s s1 \<Longrightarrow> extends s (iunlockput ip s1)"
  "extends s s1 \<Longrightarrow> extends s (iupdate ip s1)"
  "extends s s1 \<Longrightarrow> extends s (istore ip f s1)"
  "extends s s1 \<Longrightarrow> extends s (put_de ip de off n s1)"
  "extends s s1 \<Longrightarrow> extends s (fileclose fl s1)"
  "extends s s1 \<Longrightarrow> extends s (s1\<lparr>ftable := ft\<rparr>)"
  "extends s s1 \<Longrightarrow> extends s (s1\<lparr>ofile := ot\<rparr>)"
  "extends s s1 \<Longrightarrow> extends s (s1\<lparr>tagstore := ts\<rparr>)"
  by (erule extends_app [rotated] extends_same [rotated], simp)+

lemma new_events_txn:
  assumes "extends s s'" and "txn s' = txn s @ evs"
  shows "txn_events (new_events s s') = evs"
proof -
  from assms(1) have "trace s' = trace s @ new_events s s'"
    by (metis append_take_drop_id extends_def new_events_def)
  then have "txn s' = txn s @ txn_events (new_events s s')"
    by (simp add: txn_def)
  with assms(2) show ?thesis by simp
qed

lemma dirlink_eq:
  "dirlink dp name i s =
     (case lookup_slot s dp name of
        Some k \<Rightarrow> (- 1, iput (dev dp, de_inum (content s dp k)) (iget (dev dp, de_inum (content s dp k)) s))
      | None \<Rightarrow>
          if free_slot s dp * sizeof_de > size_i (icache s dp) then (- 1, s)
          else (0, put_de dp \<lparr>de_inum = i, de_name = name\<rparr> (free_slot s dp * sizeof_de) sizeof_de s))"
  by (simp add: dirlink_def dirlookup_def writei_def Let_def split: option.splits)

lemma txn_pairs [simp]:
  "txn (snd (namei path s)) = txn s"
  "txn (snd (nameiparent path s)) = txn s"
  "txn (snd (dirlookup dp name s)) = txn s"
  "txn (snd (dirlink dp name i s)) = txn s"
  "txn (snd (ialloc d t s)) = txn s"
  "txn (snd (filealloc s)) = txn s"
  "txn (snd (fdalloc kp fl s)) = txn s"
  "txn (snd (fs_ftag fl key val s)) = txn s"
  "txn (snd (fs_funtag fl key s)) = txn s"
  "txn (snd (fs_gettag fl key buf s)) = txn s"
proof -
  show "txn (snd (namei path s)) = txn s"
    by (simp add: namei_def split: option.splits)
  show "txn (snd (nameiparent path s)) = txn s"
    by (simp add: nameiparent_def split: option.splits)
  show "txn (snd (dirlookup dp name s)) = txn s"
    by (simp add: dirlookup_def Let_def split: option.splits)
  show "txn (snd (dirlink dp name i s)) = txn s"
    by (simp add: dirlink_eq split: option.splits)
  show "txn (snd (ialloc d t s)) = txn s"
    by (simp add: ialloc_def txn_def split: option.splits)
  show "txn (snd (filealloc s)) = txn s"
    by (simp add: filealloc_def split: option.splits)
  show "txn (snd (fdalloc kp fl s)) = txn s"
    using fdalloc_cases [of kp fl s] by auto
  show "txn (snd (fs_ftag fl key val s)) = txn s"
    by (simp add: fs_ftag_def Let_def)
  show "txn (snd (fs_funtag fl key s)) = txn s"
    by (simp add: fs_funtag_def Let_def split: option.splits)
  show "txn (snd (fs_gettag fl key buf s)) = txn s"
    by (simp add: fs_gettag_def Let_def split: option.splits)
qed

lemma extends_pairs:
  "extends s s1 \<Longrightarrow> extends s (snd (namei path s1))"
  "extends s s1 \<Longrightarrow> extends s (snd (nameiparent path s1))"
  "extends s s1 \<Longrightarrow> extends s (snd (dirlookup dp name s1))"
  "extends s s1 \<Longrightarrow> extends s (snd (dirlink dp name i s1))"
  "extends s s1 \<Longrightarrow> extends s (snd (ialloc d t s1))"
  "extends s s1 \<Longrightarrow> extends s (snd (filealloc s1))"
  "extends s s1 \<Longrightarrow> extends s (snd (fdalloc kp fl s1))"
  "extends s s1 \<Longrightarrow> extends s (snd (fs_ftag fl key val s1))"
  "extends s s1 \<Longrightarrow> extends s (snd (fs_funtag fl key s1))"
  "extends s s1 \<Longrightarrow> extends s (snd (fs_gettag fl key buf s1))"
proof -
  assume a: "extends s s1"
  show "extends s (snd (namei path s1))"
    using a by (auto simp: namei_def split: option.splits intro: extends_intros)
  show "extends s (snd (nameiparent path s1))"
    using a by (auto simp: nameiparent_def split: option.splits intro: extends_intros)
  show "extends s (snd (dirlookup dp name s1))"
    using a by (auto simp: dirlookup_def Let_def split: option.splits intro: extends_intros)
  show "extends s (snd (dirlink dp name i s1))"
    using a by (auto simp: dirlink_eq split: option.splits intro: extends_intros)
  show "extends s (snd (ialloc d t s1))"
    using a by (auto simp: ialloc_def split: option.splits intro: extends_app [rotated])
  show "extends s (snd (filealloc s1))"
    using a by (auto simp: filealloc_def split: option.splits intro: extends_intros)
  show "extends s (snd (fdalloc kp fl s1))"
    using a fdalloc_cases [of kp fl s1] by (auto intro: extends_intros)
  show "extends s (snd (fs_ftag fl key val s1))"
    using a by (auto simp: fs_ftag_def Let_def intro: extends_intros)
  show "extends s (snd (fs_funtag fl key s1))"
    using a by (auto simp: fs_funtag_def Let_def split: option.splits intro: extends_intros)
  show "extends s (snd (fs_gettag fl key buf s1))"
    using a by (auto simp: fs_gettag_def Let_def split: option.splits intro: extends_intros)
qed

lemmas extends_rules = extends_intros extends_pairs

lemma create_txn:
  assumes "create path t mj mn s = Ret r s'"
  shows "txn s' = txn s" and "extends s s'"
proof -
  from assms show "txn s' = txn s"
    by (auto simp: create_def create_dots_def create_entry_def Let_def case_prod_beta
        split: option.splits if_splits res.splits)
  from assms show "extends s s'"
    by (auto simp: create_def create_dots_def create_entry_def Let_def case_prod_beta
        split: option.splits if_splits res.splits intro!: extends_rules)
qed

lemma open_follow_txn:
  "(open_follow i ip s = LRet r s' \<longrightarrow> trace s' = trace s) \<and>
   (open_follow i ip s = LDone j t s' \<longrightarrow> trace s' = trace s)"
proof (induction i ip s rule: open_follow.induct)
  case (1 i ip s)
  show ?case
  proof (cases "i < 16 \<and> symlnk (icache s ip)")
    case False
    then show ?thesis
      by (subst (1 2) open_follow.simps) auto
  next
    case True
    show ?thesis
    proof (cases "resolve s (addrs (icache s ip))")
      case None
      with True show ?thesis
        by (subst (1 2) open_follow.simps) (auto simp: namei_def)
    next
      case (Some t1)
      have n: "namei (addrs (icache s ip)) s = (Some t1, iget t1 s)"
        using Some by (simp add: namei_def)
      have e: "open_follow i ip s = open_follow (i + 1) t1 (ilock t1 (iunlock ip (iget t1 s)))"
        using True n by (subst open_follow.simps) simp
      from "1.IH" [OF _ _ n [symmetric] refl] True e show ?thesis
        by simp
    qed
  qed
qed

lemma open_file_txn:
  assumes "open_file kp omode ip s = Ret r s'"
  shows "txn s' = txn s" and "extends s s'"
proof -
  have t: "trace s' = trace s"
  proof (cases "open_follow 0 ip s")
    case (LRet r1 s1)
    with assms open_follow_txn [of 0 ip s r1 s1] show ?thesis
      by (simp add: open_file_def)
  next
    case (LDone j t s1)
    with open_follow_txn [of 0 ip s _ s1 j t] have t1: "trace s1 = trace s"
      by simp
    from filealloc_cases [of s1] show ?thesis
    proof
      assume "filealloc s1 = (None, s1)"
      with assms LDone t1 show ?thesis
        by (auto simp: open_file_def split: if_splits)
    next
      assume "\<exists>i<length (ftable s1). f_ref (ftable s1 ! i) = 0 \<and>
        filealloc s1 = (Some i, s1\<lparr>ftable := (ftable s1)[i := (ftable s1 ! i)\<lparr>f_ref := 1\<rparr>]\<rparr>)"
      then obtain f where fa: "filealloc s1 = (Some f, s1\<lparr>ftable := (ftable s1)[f := (ftable s1 ! f)\<lparr>f_ref := 1\<rparr>]\<rparr>)"
        by blast
      define s2 where "s2 = s1\<lparr>ftable := (ftable s1)[f := (ftable s1 ! f)\<lparr>f_ref := 1\<rparr>]\<rparr>"
      have t2: "trace s2 = trace s" using t1 by (simp add: s2_def)
      from fdalloc_cases [of kp f s2] assms LDone fa t2 show ?thesis
        by (auto simp: open_file_def s2_def [symmetric] Let_def split: if_splits)
    qed
  qed
  then show "txn s' = txn s" and "extends s s'"
    by (simp_all add: txn_def extends_def)
qed

lemma fst_namei [simp]: "fst (namei path s) = resolve s path"
  by (simp add: namei_def split: option.splits)

lemma fst_nameiparent [simp]: "fst (nameiparent path s) = resolve_parent s path"
  by (simp add: nameiparent_def split: option.splits)

lemma extends_from_begin: "extends (begin_trans s) s1 \<Longrightarrow> extends s s1"
  using extends_trans [of s "begin_trans s" s1] extends_intros(1) [OF extends_refl] by blast

lemma sys_link_txn:
  assumes "sys_link a0 a1 s = Ret r s'"
  shows "extends s s'"
    and "txn s' = txn s @ (if entry_valid kp (Link a0 a1) s then [BeginTrans, CommitTrans] else [])"
proof -
  from assms show "extends s s'"
    by (auto simp: sys_link_def link_bad_def Let_def case_prod_beta
        split: option.splits if_splits intro!: extends_rules)
  from assms show "txn s' = txn s @ (if entry_valid kp (Link a0 a1) s then [BeginTrans, CommitTrans] else [])"
    by (auto simp: sys_link_def link_bad_def Let_def case_prod_beta
        split: option.splits if_splits)
qed

lemma sys_unlink_txn:
  assumes "sys_unlink a0 s = Ret r s'"
  shows "extends s s'"
    and "txn s' = txn s @ (if entry_valid kp (Unlink a0) s then [BeginTrans, CommitTrans] else [])"
proof -
  from assms show "extends s s'"
    by (auto simp: sys_unlink_def unlink_bad_def writei_def Let_def case_prod_beta
        split: option.splits if_splits sum.splits intro!: extends_rules)
  from assms show "txn s' = txn s @ (if entry_valid kp (Unlink a0) s then [BeginTrans, CommitTrans] else [])"
    by (auto simp: sys_unlink_def unlink_bad_def writei_def Let_def case_prod_beta
        split: option.splits if_splits sum.splits)
qed

lemma sys_open_txn:
  assumes "sys_open kp a0 a1 s = Ret r s'"
  shows "extends s s'"
    and "txn s' = txn s @ (if entry_valid kp (Open a0 a1) s then [BeginTrans, CommitTrans] else [])"
proof -
  have "extends s s' \<and>
      txn s' = txn s @ (if entry_valid kp (Open a0 a1) s then [BeginTrans, CommitTrans] else [])"
  proof (cases "\<exists>path omode. a0 = Some path \<and> a1 = Some omode")
    case False
    with assms show ?thesis
      by (auto simp: sys_open_def split: option.splits)
  next
    case True
    then obtain path omode where a: "a0 = Some path" "a1 = Some omode"
      by blast
    show ?thesis
    proof (cases "omode AND O_CREATE kp \<noteq> 0")
      case True
      with assms a obtain ro s1 where c: "create path T_FILE 0 0 (begin_trans s) = Ret ro s1"
        by (auto simp: sys_open_def split: res.splits)
      note c1 = create_txn [OF c]
      show ?thesis
      proof (cases ro)
        case None
        with assms a True c c1 extends_from_begin [OF c1(2)] show ?thesis
          by (auto simp: sys_open_def intro: extends_rules)
      next
        case (Some ip)
        with assms a True c have o: "open_file kp omode ip (commit_trans s1) = Ret r s'"
          by (simp add: sys_open_def)
        note o1 = open_file_txn [OF o]
        have "extends s (commit_trans s1)"
          using extends_from_begin [OF c1(2)] by (auto intro: extends_rules)
        with o1 have "extends s s'"
          by (blast intro: extends_trans)
        with o1 c1 a True show ?thesis
          by simp
      qed
    next
      case False
      show ?thesis
      proof (cases "resolve s path")
        case None
        with assms a False show ?thesis
          by (auto simp: sys_open_def namei_def)
      next
        case (Some ip)
        show ?thesis
        proof (cases "type (icache s ip) = T_DIR \<and> omode \<noteq> O_RDONLY kp")
          case True
          with assms a False Some show ?thesis
            by (auto simp: sys_open_def namei_def intro!: extends_rules)
        next
          case nd: False
          with assms a False Some
          have o: "open_file kp omode ip (ilock ip (iget ip s)) = Ret r s'"
            by (auto simp: sys_open_def namei_def)
          note o1 = open_file_txn [OF o]
          have "extends s (ilock ip (iget ip s))"
            by (intro extends_rules) simp
          with o1 have "extends s s'"
            by (blast intro: extends_trans)
          with o1 a False show ?thesis
            by simp
        qed
      qed
    qed
  qed
  then show "extends s s'"
    and "txn s' = txn s @ (if entry_valid kp (Open a0 a1) s then [BeginTrans, CommitTrans] else [])"
    by simp_all
qed

lemma sys_mkdir_txn:
  assumes "sys_mkdir a0 s = Ret r s'"
  shows "extends s s'" and "txn s' = txn s @ [BeginTrans, CommitTrans]"
proof -
  have "extends s s' \<and> txn s' = txn s @ [BeginTrans, CommitTrans]"
  proof (cases a0)
    case None
    with assms show ?thesis
      by (auto simp: sys_mkdir_def Let_def intro!: extends_rules)
  next
    case (Some path)
    with assms obtain ro s1 where c: "create path T_DIR 0 0 (begin_trans s) = Ret ro s1"
      by (auto simp: sys_mkdir_def Let_def split: res.splits)
    note c1 = create_txn [OF c]
    have "extends s s1"
      using c1(2) by (rule extends_from_begin)
    with assms Some c c1 show ?thesis
      by (auto simp: sys_mkdir_def Let_def split: option.splits intro!: extends_rules)
  qed
  then show "extends s s'" and "txn s' = txn s @ [BeginTrans, CommitTrans]"
    by simp_all
qed

lemma sys_mknod_txn:
  assumes "sys_mknod a0 a1 a2 s = Ret r s'"
  shows "extends s s'" and "txn s' = txn s @ [BeginTrans, CommitTrans]"
proof -
  have "extends s s' \<and> txn s' = txn s @ [BeginTrans, CommitTrans]"
  proof (cases "\<exists>path mj mn. a0 = Some path \<and> a1 = Some mj \<and> a2 = Some mn")
    case False
    with assms show ?thesis
      by (auto simp: sys_mknod_def Let_def split: option.splits intro!: extends_rules)
  next
    case True
    then obtain path mj mn where a: "a0 = Some path" "a1 = Some mj" "a2 = Some mn"
      by blast
    with assms obtain ro s1
      where c: "create path T_DEV (ucast mj) (ucast mn) (begin_trans s) = Ret ro s1"
      by (auto simp: sys_mknod_def Let_def split: res.splits)
    note c1 = create_txn [OF c]
    have "extends s s1"
      using c1(2) by (rule extends_from_begin)
    with assms a c c1 show ?thesis
      by (auto simp: sys_mknod_def Let_def split: option.splits intro!: extends_rules)
  qed
  then show "extends s s'" and "txn s' = txn s @ [BeginTrans, CommitTrans]"
    by simp_all
qed

lemma sys_symlink_txn:
  assumes "sys_symlink kp a0 a1 s = Ret r s'"
  shows "extends s s'"
    and "txn s' = txn s @ (if entry_valid kp (Symlink a0 a1) s then [BeginTrans, CommitTrans] else [])"
proof -
  have "extends s s' \<and>
      txn s' = txn s @ (if entry_valid kp (Symlink a0 a1) s then [BeginTrans, CommitTrans] else [])"
  proof (cases "\<exists>target path. a0 = Some target \<and> a1 = Some path")
    case False
    with assms show ?thesis
      by (auto simp: sys_symlink_def split: option.splits)
  next
    case True
    then obtain target path where a: "a0 = Some target" "a1 = Some path"
      by blast
    with assms obtain ro s1 where c: "create path T_FILE 0 0 (begin_trans s) = Ret ro s1"
      by (auto simp: sys_symlink_def split: res.splits)
    note c1 = create_txn [OF c]
    have e: "extends s (commit_trans s1)"
      using extends_from_begin [OF c1(2)] by (auto intro: extends_rules)
    from filealloc_cases [of "commit_trans s1"] assms a c c1 e show ?thesis
      by (auto simp: sys_symlink_def Let_def split: option.splits if_splits
          intro!: extends_rules)
  qed
  then show "extends s s'"
    and "txn s' = txn s @ (if entry_valid kp (Symlink a0 a1) s then [BeginTrans, CommitTrans] else [])"
    by simp_all
qed

lemma sys_ftag_txn:
  assumes "sys_ftag kp a0 a1 a2 s = Ret r s'"
  shows "extends s s'"
    and "txn s' = txn s @ (if entry_valid kp (Ftag a0 a1 a2) s then [BeginTrans, CommitTrans] else [])"
proof -
  from assms show "extends s s'"
    by (auto simp: sys_ftag_def case_prod_beta split: option.splits intro!: extends_rules)
  from assms show "txn s' = txn s @ (if entry_valid kp (Ftag a0 a1 a2) s then [BeginTrans, CommitTrans] else [])"
    by (auto simp: sys_ftag_def case_prod_beta split: option.splits)
qed

lemma sys_funtag_txn:
  assumes "sys_funtag kp a0 a1 s = Ret r s'"
  shows "extends s s'"
    and "txn s' = txn s @ (if entry_valid kp (Funtag a0 a1) s then [BeginTrans, CommitTrans] else [])"
proof -
  from assms show "extends s s'"
    by (auto simp: sys_funtag_def case_prod_beta split: option.splits intro!: extends_rules)
  from assms show "txn s' = txn s @ (if entry_valid kp (Funtag a0 a1) s then [BeginTrans, CommitTrans] else [])"
    by (auto simp: sys_funtag_def case_prod_beta split: option.splits)
qed

lemma sys_gettag_txn:
  assumes "sys_gettag kp a0 a1 a2 s = Ret r s'"
  shows "extends s s'"
    and "txn s' = txn s @ (if entry_valid kp (Gettag a0 a1 a2) s then [BeginTrans, CommitTrans] else [])"
proof -
  from assms show "extends s s'"
    by (auto simp: sys_gettag_def case_prod_beta split: option.splits intro!: extends_rules)
  from assms show "txn s' = txn s @ (if entry_valid kp (Gettag a0 a1 a2) s then [BeginTrans, CommitTrans] else [])"
    by (auto simp: sys_gettag_def case_prod_beta split: option.splits)
qed

lemma finalD: "final r = Some s' \<Longrightarrow> \<exists>v. r = Ret v s'"
  by (cases r) (simp_all add: final_def)

lemma run_brackets:
  assumes "run kp c s = Some s'"
  shows "extends s s' \<and>
     txn s' = txn s @ (if opens_txn kp c s then [BeginTrans, CommitTrans] else [])"
proof (cases c)
  case (Link a0 a1)
  with assms obtain v where "sys_link a0 a1 s = Ret v s'"
    by (auto dest: finalD)
  from sys_link_txn(1) [OF this] sys_link_txn(2) [OF this, of kp] Link show ?thesis by simp
next
  case (Unlink a0)
  with assms obtain v where "sys_unlink a0 s = Ret v s'"
    by (auto dest: finalD)
  from sys_unlink_txn(1) [OF this] sys_unlink_txn(2) [OF this, of kp] Unlink show ?thesis by simp
next
  case (Open a0 a1)
  with assms obtain v where "sys_open kp a0 a1 s = Ret v s'"
    by (auto dest: finalD)
  from sys_open_txn [OF this] Open show ?thesis by simp
next
  case (Mkdir a0)
  with assms obtain v where "sys_mkdir a0 s = Ret v s'"
    by (auto dest: finalD)
  from sys_mkdir_txn [OF this] Mkdir show ?thesis by simp
next
  case (Mknod a0 a1 a2)
  with assms obtain v where "sys_mknod a0 a1 a2 s = Ret v s'"
    by (auto dest: finalD)
  from sys_mknod_txn [OF this] Mknod show ?thesis by simp
next
  case (Symlink a0 a1)
  with assms obtain v where "sys_symlink kp a0 a1 s = Ret v s'"
    by (auto dest: finalD)
  from sys_symlink_txn [OF this] Symlink show ?thesis by simp
next
  case (Ftag a0 a1 a2)
  with assms obtain v where "sys_ftag kp a0 a1 a2 s = Ret v s'"
    by (auto dest: finalD)
  from sys_ftag_txn [OF this] Ftag show ?thesis by simp
next
  case (Funtag a0 a1)
  with assms obtain v where "sys_funtag kp a0 a1 s = Ret v s'"
    by (auto dest: finalD)
  from sys_funtag_txn [OF this] Funtag show ?thesis by simp
next
  case (Gettag a0 a1 a2)
  with assms obtain v where "sys_gettag kp a0 a1 a2 s = Ret v s'"
    by (auto dest: finalD)
  from sys_gettag_txn [OF this] Gettag show ?thesis by simp
qed

lemma cwd_prims [simp]:
  "cwd (ilock ip s) = cwd s"
  "cwd (iunlock ip s) = cwd s"
  "cwd (iget ip s) = cwd s"
  "cwd (iput ip s) = cwd s"
  "cwd (iunlockput ip s) = cwd s"
  "cwd (iupdate ip s) = cwd s"
  "cwd (istore ip f s) = cwd s"
  "cwd (begin_trans s) = cwd s"
  "cwd (commit_trans s) = cwd s"
  "cwd (put_de ip de off n s) = cwd s"
  by (simp_all add: ilock_def iunlock_def iget_def iput_def iunlockput_def iupdate_def
      istore_def begin_trans_def commit_trans_def put_de_def Let_def)

lemma create_file_run:
  assumes p: "resolve_parent s path = Some (dp, name)"
    and l: "lookup_slot s dp name = None"
    and f: "find (\<lambda>i. type (icache s (dev dp, i)) = T_NONE) [1 ..< ninodes s] = Some i"
    and jp: "jp = (dev dp, i)"
    and t: "t \<noteq> T_DIR"
    and room: "free_slot s dp * sizeof_de \<le> size_i (icache s dp)"
  shows "\<exists>s'. create path t mj mn s = Ret (Some jp) s' \<and> jp \<noteq> dp
       \<and> icache s' jp = (fresh_inode t)\<lparr>busy := True, major := mj, minor := mn, nlink := 1\<rparr>
       \<and> disk s' jp = to_dinode ((fresh_inode t)\<lparr>major := mj, minor := mn, nlink := 1\<rparr>)
       \<and> icache s' dp = (icache s dp)\<lparr>busy := False,
            size_i := max (size_i (icache s dp)) (free_slot s dp * sizeof_de + sizeof_de)\<rparr>
       \<and> (\<forall>j. j \<noteq> jp \<longrightarrow> j \<noteq> dp \<longrightarrow> icache s' j = icache s j)
       \<and> content s' = (content s)(dp := (content s dp)
            (free_slot s dp := \<lparr>de_inum = inum jp, de_name = name\<rparr>))
       \<and> ftable s' = ftable s \<and> ofile s' = ofile s \<and> cwd s' = cwd s
       \<and> trace s' = trace s @
            [IAlloc jp, Store jp, Store jp, Store jp, IUpdate jp,
             WriteI dp (free_slot s dp * sizeof_de)]"
proof -
  have dpt: "type (icache s dp) = T_DIR"
    using p by (rule resolve_parent_dir)
  define s0 where "s0 = ilock dp (iget dp s)"
  have s0: "fsview s0 = fsview s" "trace s0 = trace s"
    "\<And>j. type (icache s0 j) = type (icache s j)" "\<And>j. size_i (icache s0 j) = size_i (icache s j)"
    "content s0 = content s"
    by (simp_all add: s0_def)
  have n0: "ninodes s0 = ninodes s"
    by (simp add: s0_def ilock_def iget_def)
  have f0: "find (\<lambda>i. type (icache s0 (dev dp, i)) = T_NONE) [1 ..< ninodes s0] = Some i"
    using f s0 n0 by simp
  define s1 where "s1 = alloc_inode jp t s0"
  from ialloc_find(1,2) [OF f0] ialloc_find(3) [OF f0, of t]
  have i: "1 \<le> i" "type (icache s0 jp) = T_NONE"
    and a': "ialloc (dev dp) t s0 = (Some jp, s1)"
    by (simp_all add: jp s1_def)
  have ne: "jp \<noteq> dp"
    using i s0 dpt by auto
  define s2 where "s2 = iupdate jp (istore jp (\<lambda>i. i\<lparr>nlink := 1\<rparr>) (istore jp (\<lambda>i. i\<lparr>minor := mn\<rparr>)
     (istore jp (\<lambda>i. i\<lparr>major := mj\<rparr>) (ilock jp s1))))"
  have c1: "create path t mj mn s = create_entry dp name jp s2"
    using p l a' t
    by (simp add: create_def nameiparent_def dirlookup_def s0_def [symmetric] s2_def Let_def)
  have s2_dp: "content s2 = content s" "size_i (icache s2 dp) = size_i (icache s dp)"
    using ne s0 by (simp_all add: s2_def s1_def)
  have ns: "nslots s2 dp = nslots s dp"
    using s2_dp by (simp add: nslots_def)
  have s2_l: "lookup_slot s2 dp name = None" "free_slot s2 dp = free_slot s dp"
    using l ns s2_dp by (simp_all add: lookup_slot_def free_slot_def cong: option.case_cong)
  define s3 where "s3 = put_de dp \<lparr>de_inum = inum jp, de_name = name\<rparr> (free_slot s dp * sizeof_de) sizeof_de s2"
  have fin: "create path t mj mn s = Ret (Some jp) (iunlockput dp s3)"
    using c1 s2_l s2_dp room by (simp add: create_entry_def dirlink_absent s3_def)
  have sz: "(free_slot s dp * sizeof_de) div sizeof_de = free_slot s dp"
    by (simp add: sizeof_de_def)
  have ic: "icache (iunlockput dp s3) jp = (fresh_inode t)\<lparr>busy := True, major := mj, minor := mn, nlink := 1\<rparr>"
    using ne by (simp add: s3_def s2_def s1_def s0_def iunlockput_def iput_def iunlock_def put_de_def Let_def
        istore_def iupdate_def ilock_def iget_def fresh_inode_def)
  have dk: "disk (iunlockput dp s3) jp = to_dinode ((fresh_inode t)\<lparr>major := mj, minor := mn, nlink := 1\<rparr>)"
    using ne by (simp add: s3_def s2_def s1_def s0_def iunlockput_def iput_def iunlock_def put_de_def Let_def
        istore_def iupdate_def ilock_def iget_def fresh_inode_def to_dinode_def)
  have id: "icache (iunlockput dp s3) dp = (icache s dp)\<lparr>busy := False,
            size_i := max (size_i (icache s dp)) (free_slot s dp * sizeof_de + sizeof_de)\<rparr>"
    using ne by (simp add: s3_def s2_def s1_def s0_def iunlockput_def iput_def iunlock_def put_de_def Let_def
        istore_def iupdate_def ilock_def iget_def alloc_inode_def)
  have io: "\<And>j. j \<noteq> jp \<Longrightarrow> j \<noteq> dp \<Longrightarrow> icache (iunlockput dp s3) j = icache s j"
    by (simp add: s3_def s2_def s1_def s0_def iunlockput_def iput_def iunlock_def put_de_def Let_def
        istore_def iupdate_def ilock_def iget_def alloc_inode_def)
  have ct: "content (iunlockput dp s3) = (content s)(dp := (content s dp)
            (free_slot s dp := \<lparr>de_inum = inum jp, de_name = name\<rparr>))"
    unfolding s3_def s2_def s1_def s0_def
    by (simp add: put_de_def Let_def sizeof_de_def)
  have rest: "ftable (iunlockput dp s3) = ftable s" "ofile (iunlockput dp s3) = ofile s"
    "cwd (iunlockput dp s3) = cwd s"
    "trace (iunlockput dp s3) = trace s @
            [IAlloc jp, Store jp, Store jp, Store jp, IUpdate jp,
             WriteI dp (free_slot s dp * sizeof_de)]"
    using sz by (simp_all add: s3_def s2_def s1_def s0_def)
  show ?thesis
    using fin ne ic dk id io ct rest by blast
qed

lemma symlink_run:
  assumes p: "resolve_parent s path = Some (dp, name)"
    and l: "lookup_slot s dp name = None"
    and f: "find (\<lambda>i. type (icache s (dev dp, i)) = T_NONE) [1 ..< ninodes s] = Some i"
    and jp: "jp = (dev dp, i)"
    and room: "free_slot s dp * sizeof_de \<le> size_i (icache s dp)"
    and fl: "find (\<lambda>i. f_ref (ftable s ! i) = 0) [0 ..< length (ftable s)] = Some fi"
    and len: "length target \<le> MAX_LNK_NAME kp"
  shows "\<exists>s'. sys_symlink kp (Some target) (Some path) s = Ret 0 s' \<and> jp \<noteq> dp
       \<and> icache s' jp = \<lparr>ref = 1, busy = False, symlnk = True, type = T_FILE, major = 0,
            minor = 0, nlink = 1, size_i = 0,
            addrs = safestrcpy [] target (int (MAX_LNK_NAME kp))\<rparr>
       \<and> disk s' jp = to_dinode ((fresh_inode T_FILE)\<lparr>nlink := 1\<rparr>)
       \<and> icache s' dp = (icache s dp)\<lparr>busy := False,
            size_i := max (size_i (icache s dp)) (free_slot s dp * sizeof_de + sizeof_de)\<rparr>
       \<and> (\<forall>j. j \<noteq> jp \<longrightarrow> j \<noteq> dp \<longrightarrow> icache s' j = icache s j)
       \<and> content s' = (content s)(dp := (content s dp)
            (free_slot s dp := \<lparr>de_inum = inum jp, de_name = name\<rparr>))
       \<and> ftable s' = (ftable s)[fi := (ftable s ! fi)
            \<lparr>f_ref := 1, f_type := FD_SYMLNK, f_ip := jp, f_off := 0,
             readable := True, writable := False\<rparr>]
       \<and> fi < length (ftable s)
       \<and> ofile s' = ofile s \<and> cwd s' = cwd s
       \<and> trace s' = trace s @
            [BeginTrans, IAlloc jp, Store jp, Store jp, Store jp, IUpdate jp,
             WriteI dp (free_slot s dp * sizeof_de), CommitTrans,
             Store jp, Store jp, Store jp]"
proof -
  define b where "b = begin_trans s"
  have b: "resolve_parent b path = Some (dp, name)" "lookup_slot b dp name = None"
    "find (\<lambda>i. type (icache b (dev dp, i)) = T_NONE) [1 ..< ninodes b] = Some i"
    "free_slot b dp * sizeof_de \<le> size_i (icache b dp)"
    using p l f room by (simp_all add: b_def begin_trans_def [of s, THEN arg_cong, of ninodes])
  have bf: "icache b = icache s" "content b = content s" "ftable b = ftable s"
    "ofile b = ofile s" "cwd b = cwd s" "trace b = trace s @ [BeginTrans]"
    by (simp_all add: b_def begin_trans_def)
  have bf2: "free_slot b dp = free_slot s dp"
    by (simp add: b_def)
  from create_file_run [OF b(1,2,3) jp _ b(4), of T_FILE 0 0]
  obtain s1 where c: "create path T_FILE 0 0 b = Ret (Some jp) s1" and ne: "jp \<noteq> dp"
    and s1: "icache s1 jp = (fresh_inode T_FILE)\<lparr>busy := True, major := 0, minor := 0, nlink := 1\<rparr>"
      "disk s1 jp = to_dinode ((fresh_inode T_FILE)\<lparr>major := 0, minor := 0, nlink := 1\<rparr>)"
      "icache s1 dp = (icache s dp)\<lparr>busy := False,
            size_i := max (size_i (icache s dp)) (free_slot s dp * sizeof_de + sizeof_de)\<rparr>"
      "\<And>j. j \<noteq> jp \<Longrightarrow> j \<noteq> dp \<Longrightarrow> icache s1 j = icache s j"
      "content s1 = (content s)(dp := (content s dp)
            (free_slot s dp := \<lparr>de_inum = inum jp, de_name = name\<rparr>))"
      "ftable s1 = ftable s" "ofile s1 = ofile s" "cwd s1 = cwd s"
      "trace s1 = trace s @
            [BeginTrans, IAlloc jp, Store jp, Store jp, Store jp, IUpdate jp,
             WriteI dp (free_slot s dp * sizeof_de)]"
    unfolding bf bf2 by auto
  define s2 where "s2 = commit_trans s1"
  have fi: "fi < length (ftable s)" "f_ref (ftable s ! fi) = 0"
    using fl by (auto simp: find_Some_iff)
  define s3 where "s3 = s2\<lparr>ftable := (ftable s2)[fi := (ftable s2 ! fi)\<lparr>f_ref := 1\<rparr>]\<rparr>"
  have ft2: "ftable s2 = ftable s"
    using s1 by (simp add: s2_def)
  have fa: "filealloc s2 = (Some fi, s3)"
    using fl by (simp add: filealloc_def ft2 s3_def)
  define s4 where "s4 = iunlock jp (istore jp (\<lambda>i. i\<lparr>size_i := 0\<rparr>) (istore jp (\<lambda>i. i\<lparr>symlnk := True\<rparr>)
      (istore jp (\<lambda>i. i\<lparr>addrs := safestrcpy (addrs i) target (int (MAX_LNK_NAME kp))\<rparr>) s3)))"
  define s5 where "s5 = s4\<lparr>ftable := (ftable s4)[fi := (ftable s4 ! fi)
                                     \<lparr>f_type := FD_SYMLNK, f_ip := jp, f_off := 0,
                                      readable := True, writable := False\<rparr>]\<rparr>"
  have run: "sys_symlink kp (Some target) (Some path) s = Ret 0 s5"
    using c fa len
    by (simp add: sys_symlink_def b_def [symmetric] s2_def [symmetric] s4_def s5_def Let_def)
  have i3: "icache s3 = icache s1" "disk s3 = disk s1" "content s3 = content s1"
    "ofile s3 = ofile s1" "cwd s3 = cwd s1" "trace s3 = trace s1 @ [CommitTrans]"
    "ftable s3 = (ftable s)[fi := (ftable s ! fi)\<lparr>f_ref := 1\<rparr>]"
    using ft2 by (simp_all add: s3_def s2_def commit_trans_def)
  have e1: "icache s5 jp = \<lparr>ref = 1, busy = False, symlnk = True, type = T_FILE, major = 0,
            minor = 0, nlink = 1, size_i = 0,
            addrs = safestrcpy [] target (int (MAX_LNK_NAME kp))\<rparr>"
    using s1(1) i3(1)
    by (simp add: s5_def s4_def iunlock_def istore_def fresh_inode_def)
  have e2: "disk s5 jp = to_dinode ((fresh_inode T_FILE)\<lparr>nlink := 1\<rparr>)"
    using s1(2) i3(2)
    by (simp add: s5_def s4_def iunlock_def istore_def fresh_inode_def)
  have e3: "icache s5 dp = (icache s dp)\<lparr>busy := False,
            size_i := max (size_i (icache s dp)) (free_slot s dp * sizeof_de + sizeof_de)\<rparr>"
    using s1(3) i3(1) ne
    by (simp add: s5_def s4_def iunlock_def istore_def)
  have e4: "\<And>j. j \<noteq> jp \<Longrightarrow> j \<noteq> dp \<Longrightarrow> icache s5 j = icache s j"
    using s1(4) i3(1)
    by (simp add: s5_def s4_def iunlock_def istore_def)
  have e5: "content s5 = (content s)(dp := (content s dp)
            (free_slot s dp := \<lparr>de_inum = inum jp, de_name = name\<rparr>))"
    "ofile s5 = ofile s" "cwd s5 = cwd s"
    using s1 i3
    by (simp_all add: s5_def s4_def iunlock_def istore_def)
  have e6: "ftable s5 = (ftable s)[fi := (ftable s ! fi)
            \<lparr>f_ref := 1, f_type := FD_SYMLNK, f_ip := jp, f_off := 0,
             readable := True, writable := False\<rparr>]"
    using i3(7) fi
    by (simp add: s5_def s4_def iunlock_def istore_def)
  have e7: "trace s5 = trace s @
            [BeginTrans, IAlloc jp, Store jp, Store jp, Store jp, IUpdate jp,
             WriteI dp (free_slot s dp * sizeof_de), CommitTrans,
             Store jp, Store jp, Store jp]"
    using i3(6) s1(9)
    by (simp add: s5_def s4_def iunlock_def istore_def)
  show ?thesis
    using run ne e1 e2 e3 e4 e5 e6 fi(1) e7 by blast
qed

lemma fs0_symlink_facts:
  "resolve_parent fs0 ''/n'' = Some ((1, 1), ''n'')"
  "lookup_slot fs0 (1, 1) ''n'' = None"
  "find (\<lambda>i. type (icache fs0 (dev ((1, 1) :: iref), i)) = T_NONE) [1 ..< ninodes fs0] = Some 7"
  "free_slot fs0 (1, 1) * sizeof_de \<le> size_i (icache fs0 (1, 1))"
  "find (\<lambda>i. f_ref (ftable fs0 ! i) = 0) [0 ..< length (ftable fs0)] = Some 0"
  "free_slot fs0 (1, 1) * sizeof_de = 112"
  by code_simp+

lemma fs0_symlink_in_d:
  "resolve_parent fs0 ''/d/s'' = Some ((1, 3), ''s'')"
  "lookup_slot fs0 (1, 3) ''s'' = None"
  "find (\<lambda>i. type (icache fs0 (dev ((1, 3) :: iref), i)) = T_NONE) [1 ..< ninodes fs0] = Some 7"
  "free_slot fs0 (1, 3) * sizeof_de \<le> size_i (icache fs0 (1, 3))"
  "find (\<lambda>i. f_ref (ftable fs0 ! i) = 0) [0 ..< length (ftable fs0)] = Some 0"
  "free_slot fs0 (1, 3) * sizeof_de = 32"
  "length ''/a'' \<le> MAX_LNK_NAME kp0"
  by code_simp+

lemma find_upt_Some:
  "find P [0 ..< m] = Some k \<longleftrightarrow> k < m \<and> P k \<and> (\<forall>j<k. \<not> P j)"
  by (auto simp: find_Some_iff)

lemma find_upt_None: "find P [0 ..< m] = None \<longleftrightarrow> (\<forall>j<m. \<not> P j)"
  by (auto simp: find_None_iff)

lemma free_slot_le: "free_slot s dp \<le> nslots s dp"
  by (auto simp: free_slot_def find_upt_Some split: option.splits)

lemma free_slot_free:
  assumes "free_slot s dp < nslots s dp"
  shows "de_inum (content s dp (free_slot s dp)) = 0"
proof (cases "find (\<lambda>k. de_inum (content s dp k) = 0) [0 ..< nslots s dp]")
  case None
  with assms show ?thesis by (simp add: free_slot_def)
next
  case (Some k)
  then have "de_inum (content s dp k) = 0"
    unfolding find_upt_Some by simp
  with Some show ?thesis by (simp add: free_slot_def)
qed

lemma walk_append:
  "walk s ip (xs @ ys) = (case walk s ip xs of None \<Rightarrow> None | Some j \<Rightarrow> walk s j ys)"
  by (induction xs arbitrary: ip) (auto split: option.splits)

lemma nslots_grow:
  assumes "size_i (icache s' dp) = max (size_i (icache s dp)) (k * sizeof_de + sizeof_de)"
  shows "nslots s dp \<le> nslots s' dp" and "k < nslots s' dp"
  using assms by (simp_all add: nslots_def sizeof_de_def)

lemma lookup_slot_new:
  assumes l: "lookup_slot s dp name = None"
    and sz: "size_i (icache s' dp) =
               max (size_i (icache s dp)) (free_slot s dp * sizeof_de + sizeof_de)"
    and ct: "content s' dp = (content s dp)(free_slot s dp := \<lparr>de_inum = i, de_name = name\<rparr>)"
    and i: "i \<noteq> 0"
  shows "lookup_slot s' dp name = Some (free_slot s dp)"
proof -
  have "free_slot s dp < nslots s' dp"
    using sz by (rule nslots_grow(2))
  moreover have "\<forall>j < free_slot s dp. \<not> (de_inum (content s dp j) \<noteq> 0
      \<and> namecmp name (de_name (content s dp j)) = 0)"
    using l free_slot_le [of s dp] unfolding lookup_slot_def find_upt_None by auto
  ultimately show ?thesis
    using ct i unfolding lookup_slot_def find_upt_Some by (simp add: namecmp_def)
qed

lemma lookup_slot_old:
  assumes l: "lookup_slot s dp name = None"
    and sz: "size_i (icache s' dp) =
               max (size_i (icache s dp)) (free_slot s dp * sizeof_de + sizeof_de)"
    and ct: "content s' dp = (content s dp)(free_slot s dp := \<lparr>de_inum = i, de_name = name\<rparr>)"
    and n: "lookup_slot s dp n = Some k"
  shows "lookup_slot s' dp n = Some k" and "content s' dp k = content s dp k"
proof -
  from n have k: "k < nslots s dp" "de_inum (content s dp k) \<noteq> 0"
    "namecmp n (de_name (content s dp k)) = 0"
    "\<forall>j<k. \<not> (de_inum (content s dp j) \<noteq> 0 \<and> namecmp n (de_name (content s dp j)) = 0)"
    unfolding lookup_slot_def find_upt_Some by auto
  have ne: "k \<noteq> free_slot s dp"
    using k(1,2) free_slot_free [of s dp] by auto
  have nn: "n \<noteq> name"
    using l n by auto
  show c: "content s' dp k = content s dp k"
    using ct ne by simp
  have "k < nslots s' dp"
    using k(1) nslots_grow(1) [OF sz] by simp
  moreover have "\<forall>j<k. \<not> (de_inum (content s' dp j) \<noteq> 0 \<and> namecmp n (de_name (content s' dp j)) = 0)"
    using k(4) ct nn by (auto simp: namecmp_def)
  ultimately show "lookup_slot s' dp n = Some k"
    using k(2,3) c unfolding lookup_slot_def find_upt_Some by simp
qed

lemma walk_mono:
  assumes ty: "\<And>j. type (icache s j) = T_DIR \<Longrightarrow> type (icache s' j) = T_DIR"
    and lk: "\<And>j n k. type (icache s j) = T_DIR \<Longrightarrow> lookup_slot s j n = Some k \<Longrightarrow>
               lookup_slot s' j n = Some k \<and> content s' j k = content s j k"
  shows "walk s ip ns = Some r \<Longrightarrow> walk s' ip ns = Some r"
proof (induction ns arbitrary: ip)
  case Nil
  then show ?case by simp
next
  case (Cons n ns)
  from Cons.prems obtain k where d: "type (icache s ip) = T_DIR"
    and l: "lookup_slot s ip n = Some k"
    and w: "walk s (dev ip, de_inum (content s ip k)) ns = Some r"
    by (auto split: if_splits option.splits)
  from lk [OF d l] ty [OF d] Cons.IH [OF w] show ?case
    by simp
qed

lemma symlink_resolve:
  assumes p: "resolve_parent s path = Some (dp, name)"
    and l: "lookup_slot s dp name = None"
    and i: "1 \<le> i" "type (icache s (dev dp, i)) = T_NONE"
    and ij: "type (icache s' (dev dp, i)) \<noteq> T_DIR"
    and id: "icache s' dp = (icache s dp)\<lparr>busy := False,
            size_i := max (size_i (icache s dp)) (free_slot s dp * sizeof_de + sizeof_de)\<rparr>"
    and io: "\<And>j. j \<noteq> (dev dp, i) \<Longrightarrow> j \<noteq> dp \<Longrightarrow> icache s' j = icache s j"
    and ct: "content s' = (content s)(dp := (content s dp)
            (free_slot s dp := \<lparr>de_inum = i, de_name = name\<rparr>))"
    and cw: "cwd s' = cwd s"
  shows "resolve s' path = Some (dev dp, i)"
    and "resolve s q = Some r \<Longrightarrow> resolve s' q = Some r"
proof -
  have dpt: "type (icache s dp) = T_DIR"
    using p by (rule resolve_parent_dir)
  have sz: "size_i (icache s' dp) =
               max (size_i (icache s dp)) (free_slot s dp * sizeof_de + sizeof_de)"
    using id by simp
  have cd: "content s' dp = (content s dp)(free_slot s dp := \<lparr>de_inum = i, de_name = name\<rparr>)"
    using ct by simp
  have ty: "type (icache s' j) = T_DIR" if "type (icache s j) = T_DIR" for j
  proof (cases "j = dp")
    case True
    with id that show ?thesis by simp
  next
    case False
    moreover from that i(2) have "j \<noteq> (dev dp, i)" by auto
    ultimately show ?thesis using io that by simp
  qed
  have lk: "lookup_slot s' j n = Some k \<and> content s' j k = content s j k"
    if "type (icache s j) = T_DIR" and "lookup_slot s j n = Some k" for j n k
  proof (cases "j = dp")
    case True
    with lookup_slot_old [OF l sz cd, of n k] that show ?thesis by simp
  next
    case False
    moreover from that i(2) have "j \<noteq> (dev dp, i)" by auto
    ultimately have "icache s' j = icache s j" "content s' j = content s j"
      using io ct by simp_all
    then have "lookup_slot s' j n = lookup_slot s j n"
      by (simp add: lookup_slot_def nslots_def)
    with that \<open>content s' j = content s j\<close> show ?thesis by simp
  qed
  have st: "start_of s' x = start_of s x" for x
    unfolding start_of_def cw ..
  show "resolve s' q = Some r" if "resolve s q = Some r"
    using that walk_mono [of s s', OF ty lk] unfolding resolve_def st by blast
  from p have e: "elems path \<noteq> []"
    and w: "walk s (start_of s path) (butlast (elems path)) = Some dp"
    and n: "name = last (elems path)"
    by (auto simp: resolve_parent_def split: if_splits option.splits)
  have w': "walk s' (start_of s path) (butlast (elems path)) = Some dp"
    using w walk_mono [of s s', OF ty lk] by blast
  have ln: "lookup_slot s' dp name = Some (free_slot s dp)"
    using lookup_slot_new [OF l sz cd] i(1) by simp
  have "walk s' dp [name] = Some (dev dp, i)"
    using ty [OF dpt] ln cd by simp
  moreover have "elems path = butlast (elems path) @ [name]"
    using e n by simp
  ultimately show "resolve s' path = Some (dev dp, i)"
    unfolding resolve_def st using w' walk_append [of s' "start_of s path" "butlast (elems path)" "[name]"]
    by simp
qed

lemma sys_readlink_last:
  assumes r: "resolve s path = Some ip"
    and c: "chain s ip d = Some l" and sl: "symlnk (icache s l)"
    and tl: "type (icache s l) = T_FILE"
    and rt: "resolve s (addrs (icache s l)) = Some t" and nt: "\<not> symlnk (icache s t)"
    and d: "d < 16"
  shows "\<exists>s'. sys_readlink (Some path) (Some buf) (Some bufsiz) s =
           Ret (int (length (safestrcpy buf (addrs (icache s l)) (sint bufsiz))),
                safestrcpy buf (addrs (icache s l)) (sint bufsiz)) s'"
proof -
  define s1 where "s1 = ilock ip (iget ip s)"
  have v: "lview s1 = lview s"
    by (simp add: s1_def)
  have "chain s1 ip d = Some l" "symlnk (icache s1 l)"
    "resolve s1 (addrs (icache s1 l)) = Some t" "\<not> symlnk (icache s1 t)"
    using c sl rt nt chain_lview [OF v] lview_eqD [OF v] by simp_all
  from readlink_follow_last [OF this, of 0] d
  obtain s2 where f: "readlink_follow 0 ip s1 = LDone d l s2" and v2: "lview s2 = lview s1"
    by auto
  have v3: "lview s2 = lview s"
    using v v2 by simp
  have "symlnk (icache s2 l)" "addrs (icache s2 l) = addrs (icache s l)"
    "type (icache s2 l) = T_FILE"
    using sl tl lview_eqD [OF v3] fsview_eqD(1) [OF lview_fsview [OF v3]] by simp_all
  moreover have "symlnk (icache s ip)"
    using c sl by (rule chain_symlnk_head)
  ultimately show ?thesis
    using r f d by (simp add: sys_readlink_start s1_def [symmetric] Let_def)
qed

lemma symlink_post:
  assumes p: "resolve_parent s path = Some (dp, name)"
    and l: "lookup_slot s dp name = None"
    and f: "find (\<lambda>i. type (icache s (dev dp, i)) = T_NONE) [1 ..< ninodes s] = Some i"
    and room: "free_slot s dp * sizeof_de \<le> size_i (icache s dp)"
    and fl: "find (\<lambda>i. f_ref (ftable s ! i) = 0) [0 ..< length (ftable s)] = Some fi"
    and len: "length target \<le> MAX_LNK_NAME kp"
  shows "\<exists>s'. sys_symlink kp (Some target) (Some path) s = Ret 0 s'
       \<and> resolve s' path = Some (dev dp, i)
       \<and> symlnk (icache s' (dev dp, i))
       \<and> type (icache s' (dev dp, i)) = T_FILE
       \<and> addrs (icache s' (dev dp, i)) = safestrcpy [] target (int (MAX_LNK_NAME kp))
       \<and> (\<forall>q r. resolve s q = Some r \<longrightarrow> resolve s' q = Some r)
       \<and> (\<forall>j. type (icache s j) \<noteq> T_NONE \<longrightarrow>
             symlnk (icache s' j) = symlnk (icache s j)
           \<and> addrs (icache s' j) = addrs (icache s j)
           \<and> type (icache s' j) = type (icache s j))"
proof -
  from symlink_run [OF p l f refl room fl len]
  obtain s' where r: "sys_symlink kp (Some target) (Some path) s = Ret 0 s'"
    and ic: "icache s' (dev dp, i) = \<lparr>ref = 1, busy = False, symlnk = True, type = T_FILE,
               major = 0, minor = 0, nlink = 1, size_i = 0,
               addrs = safestrcpy [] target (int (MAX_LNK_NAME kp))\<rparr>"
    and id: "icache s' dp = (icache s dp)\<lparr>busy := False,
            size_i := max (size_i (icache s dp)) (free_slot s dp * sizeof_de + sizeof_de)\<rparr>"
    and io: "\<And>j. j \<noteq> (dev dp, i) \<Longrightarrow> j \<noteq> dp \<Longrightarrow> icache s' j = icache s j"
    and ct: "content s' = (content s)(dp := (content s dp)
            (free_slot s dp := \<lparr>de_inum = i, de_name = name\<rparr>))"
    and cw: "cwd s' = cwd s"
    by auto
  have i: "1 \<le> i" "type (icache s (dev dp, i)) = T_NONE"
    using f by (auto simp: find_Some_iff)
  have ij: "type (icache s' (dev dp, i)) \<noteq> T_DIR"
    using ic by simp
  note rs = symlink_resolve [OF p l i ij id io ct cw]
  have fr: "symlnk (icache s' j) = symlnk (icache s j)
           \<and> addrs (icache s' j) = addrs (icache s j)
           \<and> type (icache s' j) = type (icache s j)" if "type (icache s j) \<noteq> T_NONE" for j
  proof (cases "j = dp")
    case True
    with id show ?thesis by simp
  next
    case False
    moreover from that i(2) have "j \<noteq> (dev dp, i)" by auto
    ultimately show ?thesis using io by simp
  qed
  show ?thesis
    using r rs ic fr by auto
qed

lemma fs0_target_facts:
  "length ''/a'' < MAX_LNK_NAME kp0"
  "resolve fs0 ''/a'' = Some (1, 2)"
  "type (icache fs0 (1, 2)) \<noteq> T_NONE"
  "\<not> symlnk (icache fs0 (1, 2))"
  "int (length ''/a'') < sint (100 :: 32 word)"
  "int (length ''/a'') = 2"
  by code_simp+

lemma fs0_link_facts:
  "length ''/l'' \<le> MAX_LNK_NAME kp0"
  "safestrcpy [] ''/l'' (int (MAX_LNK_NAME kp0)) = ''/l''"
  "resolve fs0 ''/l'' = Some (1, 4)"
  "type (icache fs0 (1, 4)) \<noteq> T_NONE"
  "symlnk (icache fs0 (1, 4))"
  "type (icache fs0 (1, 4)) = T_FILE"
  "addrs (icache fs0 (1, 4)) = ''/a''"
  "safestrcpy ''buf'' ''/a'' (sint (100 :: 32 word)) = ''/a''"
  "resolve fs0 ''/n'' = None"
  by code_simp+

section \<open>Properties of the system calls\<close>

text \<open>
  C10. An \<open>open\<close> without \<open>O_CREATE\<close> of a path that resolves to a directory, with a
  mode other than \<open>O_RDONLY\<close>, returns -1; the descriptor table and the table of open
  files are as before, the reference to the inode taken by the resolution is given back
  and the inode is unlocked.
\<close>

theorem open_dir_not_rdonly_fails:
  assumes "omode AND O_CREATE kp = 0"
    and "resolve s path = Some ip"
    and "type (icache s ip) = T_DIR"
    and "omode \<noteq> O_RDONLY kp"
  shows "\<exists>s'. sys_open kp (Some path) (Some omode) s = Ret (- 1) s'
           \<and> ofile s' = ofile s \<and> ftable s' = ftable s
           \<and> ref (icache s' ip) = ref (icache s ip)
           \<and> busy (icache s' ip) = False
           \<and> (\<forall>j. j \<noteq> ip \<longrightarrow> icache s' j = icache s j)"
  using assms by (simp add: sys_open_def namei_def iunlockput_def inode_prims)


theorem open_dir_not_rdonly_fails_witness:
  "\<exists>s'. sys_open kp0 (Some ''/d'') (Some 1) fs0 = Ret (- 1) s'
      \<and> ofile s' = ofile fs0 \<and> ftable s' = ftable fs0
      \<and> ref (icache s' (1, 3)) = ref (icache fs0 (1, 3))
      \<and> busy (icache s' (1, 3)) = False
      \<and> icache s' (1, 1) = icache fs0 (1, 1)"
proof -
  have h1: "(1 :: 32 word) AND O_CREATE kp0 = 0" by (simp add: kp0_def)
  have h2: "resolve fs0 ''/d'' = Some (1, 3)" by code_simp
  have h3: "type (icache fs0 (1, 3)) = T_DIR" by code_simp
  have h4: "(1 :: 32 word) \<noteq> O_RDONLY kp0" by (simp add: kp0_def)
  from open_dir_not_rdonly_fails [OF h1 h2 h3 h4] show ?thesis by force
qed

text \<open>
  C3. A \<open>link\<close> whose old path resolves to a directory returns -1. Whenever \<open>link\<close>
  returns a negative value, the link count of every inode is as before the call. When the
  old path is not a directory and the parent of the new path does not resolve, or is on
  another device, or holds the name already, the call returns -1 and its effects are the
  increment and the compensating decrement of the link count of the target, each written
  back, inside one transaction.
\<close>

theorem link_failure_keeps_nlink:
  assumes "resolve s old = Some ip"
  shows "(type (icache s ip) = T_DIR \<longrightarrow>
           (\<exists>s'. sys_link (Some old) (Some new) s = Ret (- 1) s'
              \<and> (\<forall>j. nlink (icache s' j) = nlink (icache s j))))
       \<and> (\<forall>r s'. sys_link (Some old) (Some new) s = Ret r s' \<and> r < 0 \<longrightarrow>
              (\<forall>j. nlink (icache s' j) = nlink (icache s j)))
       \<and> (type (icache s ip) \<noteq> T_DIR \<and>
            (resolve_parent s new = None \<or>
             (\<exists>dp name. resolve_parent s new = Some (dp, name) \<and>
                (dev dp \<noteq> dev ip \<or> lookup_slot s dp name \<noteq> None))) \<longrightarrow>
           (\<exists>s'. sys_link (Some old) (Some new) s = Ret (- 1) s'
              \<and> new_events s s' =
                  [BeginTrans, Store ip, IUpdate ip, Store ip, IUpdate ip, CommitTrans]
              \<and> nlink (icache s' ip) = nlink (icache s ip)
              \<and> d_nlink (disk s' ip) = nlink (icache s ip)))"
proof (intro conjI)
  show "type (icache s ip) = T_DIR \<longrightarrow>
           (\<exists>s'. sys_link (Some old) (Some new) s = Ret (- 1) s'
              \<and> (\<forall>j. nlink (icache s' j) = nlink (icache s j)))"
    using assms by (simp add: sys_link_def namei_def)
  show "\<forall>r s'. sys_link (Some old) (Some new) s = Ret r s' \<and> r < 0 \<longrightarrow>
              (\<forall>j. nlink (icache s' j) = nlink (icache s j))"
    using assms
    by (auto simp: sys_link_def namei_def nameiparent_def link_bad_def dirlink_def dirlookup_def
        writei_def put_de_def Let_def split: option.splits if_splits prod.splits)
  show "type (icache s ip) \<noteq> T_DIR \<and>
            (resolve_parent s new = None \<or>
             (\<exists>dp name. resolve_parent s new = Some (dp, name) \<and>
                (dev dp \<noteq> dev ip \<or> lookup_slot s dp name \<noteq> None))) \<longrightarrow>
           (\<exists>s'. sys_link (Some old) (Some new) s = Ret (- 1) s'
              \<and> new_events s s' =
                  [BeginTrans, Store ip, IUpdate ip, Store ip, IUpdate ip, CommitTrans]
              \<and> nlink (icache s' ip) = nlink (icache s ip)
              \<and> d_nlink (disk s' ip) = nlink (icache s ip))"
    using assms
    by (auto simp: sys_link_def namei_def nameiparent_def link_bad_def dirlink_def dirlookup_def
        new_events_def to_dinode_def Let_def split: option.splits if_splits prod.splits)
qed



theorem link_failure_keeps_nlink_witness:
  "(\<exists>s'. sys_link (Some ''/d'') (Some ''/z'') fs0 = Ret (- 1) s'
       \<and> nlink (icache s' (1, 3)) = nlink (icache fs0 (1, 3)))
   \<and> (\<exists>s'. sys_link (Some ''/a'') (Some ''/d'') fs0 = Ret (- 1) s'
       \<and> new_events fs0 s' =
            [BeginTrans, Store (1, 2), IUpdate (1, 2), Store (1, 2), IUpdate (1, 2), CommitTrans]
       \<and> nlink (icache s' (1, 2)) = 2
       \<and> d_nlink (disk s' (1, 2)) = 2)"
proof -
  have d: "resolve fs0 ''/d'' = Some (1, 3)" by code_simp
  have dt: "type (icache fs0 (1, 3)) = T_DIR" by code_simp
  have a: "resolve fs0 ''/a'' = Some (1, 2)" by code_simp
  have at: "type (icache fs0 (1, 2)) \<noteq> T_DIR" by code_simp
  have an: "nlink (icache fs0 (1, 2)) = 2" by code_simp
  have p: "resolve_parent fs0 ''/d'' = Some ((1, 1), ''d'')" by code_simp
  have l: "lookup_slot fs0 (1, 1) ''d'' \<noteq> None" by code_simp
  from link_failure_keeps_nlink [OF d, of "''/z''"] dt
  have 1: "\<exists>s'. sys_link (Some ''/d'') (Some ''/z'') fs0 = Ret (- 1) s'
       \<and> nlink (icache s' (1, 3)) = nlink (icache fs0 (1, 3))"
    by blast
  from link_failure_keeps_nlink [OF a, of "''/d''"] at p l an
  have 2: "\<exists>s'. sys_link (Some ''/a'') (Some ''/d'') fs0 = Ret (- 1) s'
       \<and> new_events fs0 s' =
            [BeginTrans, Store (1, 2), IUpdate (1, 2), Store (1, 2), IUpdate (1, 2), CommitTrans]
       \<and> nlink (icache s' (1, 2)) = 2
       \<and> d_nlink (disk s' (1, 2)) = 2"
    by simp
  from 1 2 show ?thesis by blast
qed

text \<open>
  C5. Where the path names an entry that exists: \<open>create\<close> for a plain file on a plain
  file returns that inode, locked, with no new effect (no inode allocated, no directory
  entry written) and with every link count, type, size and directory content as before;
  for another requested or existing kind it returns the null pointer and the inode found
  is unlocked. An \<open>open\<close> with \<open>O_CREATE\<close> of an existing plain file that is not a
  symbolic link leaves the link counts and directories as they are, and a descriptor it
  returns is one for that inode.
\<close>

theorem create_existing_file:
  assumes "resolve_parent s path = Some (dp, name)"
    and "lookup_slot s dp name = Some k"
    and "ip = (dev dp, de_inum (content s dp k))"
  shows "(type (icache s ip) = T_FILE \<longrightarrow>
           (\<exists>s'. create path T_FILE mj mn s = Ret (Some ip) s'
              \<and> busy (icache s' ip)
              \<and> new_events s s' = []
              \<and> content s' = content s
              \<and> (\<forall>j. nlink (icache s' j) = nlink (icache s j)
                     \<and> type (icache s' j) = type (icache s j)
                     \<and> size_i (icache s' j) = size_i (icache s j))))
       \<and> (t \<noteq> T_FILE \<or> type (icache s ip) \<noteq> T_FILE \<longrightarrow>
           (\<exists>s'. create path t mj mn s = Ret None s'
              \<and> \<not> busy (icache s' ip)
              \<and> new_events s s' = []
              \<and> content s' = content s
              \<and> (\<forall>j. nlink (icache s' j) = nlink (icache s j)
                     \<and> type (icache s' j) = type (icache s j)
                     \<and> size_i (icache s' j) = size_i (icache s j))))
       \<and> (type (icache s ip) = T_FILE \<and> \<not> symlnk (icache s ip) \<and> omode AND O_CREATE kp \<noteq> 0 \<longrightarrow>
           (\<forall>fd s'. sys_open kp (Some path) (Some omode) s = Ret fd s' \<longrightarrow>
              content s' = content s
              \<and> (\<forall>j. nlink (icache s' j) = nlink (icache s j)
                     \<and> type (icache s' j) = type (icache s j))
              \<and> (0 \<le> fd \<longrightarrow>
                   (\<exists>f. ofile s' (nat fd) = Some f \<and> f < length (ftable s')
                      \<and> f_ip (ftable s' ! f) = ip \<and> f_type (ftable s' ! f) = FD_INODE))))"
proof (intro conjI)
  show "type (icache s ip) = T_FILE \<longrightarrow>
           (\<exists>s'. create path T_FILE mj mn s = Ret (Some ip) s'
              \<and> busy (icache s' ip)
              \<and> new_events s s' = []
              \<and> content s' = content s
              \<and> (\<forall>j. nlink (icache s' j) = nlink (icache s j)
                     \<and> type (icache s' j) = type (icache s j)
                     \<and> size_i (icache s' j) = size_i (icache s j)))"
    using assms
    by (auto simp: create_def nameiparent_def dirlookup_def new_events_def Let_def)
  show "t \<noteq> T_FILE \<or> type (icache s ip) \<noteq> T_FILE \<longrightarrow>
           (\<exists>s'. create path t mj mn s = Ret None s'
              \<and> \<not> busy (icache s' ip)
              \<and> new_events s s' = []
              \<and> content s' = content s
              \<and> (\<forall>j. nlink (icache s' j) = nlink (icache s j)
                     \<and> type (icache s' j) = type (icache s j)
                     \<and> size_i (icache s' j) = size_i (icache s j)))"
    using assms
    by (auto simp: create_def nameiparent_def dirlookup_def new_events_def Let_def)
  show "type (icache s ip) = T_FILE \<and> \<not> symlnk (icache s ip) \<and> omode AND O_CREATE kp \<noteq> 0 \<longrightarrow>
           (\<forall>fd s'. sys_open kp (Some path) (Some omode) s = Ret fd s' \<longrightarrow>
              content s' = content s
              \<and> (\<forall>j. nlink (icache s' j) = nlink (icache s j)
                     \<and> type (icache s' j) = type (icache s j))
              \<and> (0 \<le> fd \<longrightarrow>
                   (\<exists>f. ofile s' (nat fd) = Some f \<and> f < length (ftable s')
                      \<and> f_ip (ftable s' ! f) = ip \<and> f_type (ftable s' ! f) = FD_INODE)))"
  proof (intro impI allI)
    fix fd s'
    assume a: "type (icache s ip) = T_FILE \<and> \<not> symlnk (icache s ip) \<and> omode AND O_CREATE kp \<noteq> 0"
      and r: "sys_open kp (Some path) (Some omode) s = Ret fd s'"
    define s1 where "s1 = commit_trans (ilock ip (iunlockput dp (iget ip (ilock dp (iget dp (begin_trans s))))))"
    have c: "create path T_FILE 0 0 (begin_trans s) = Ret (Some ip) (ilock ip (iunlockput dp (iget ip (ilock dp (iget dp (begin_trans s))))))"
      using assms a by (auto simp: create_def nameiparent_def dirlookup_def Let_def)
    have o: "open_file kp omode ip s1 = Ret fd s'"
      using r a c by (simp add: sys_open_def s1_def)
    have f1: "content s1 = content s" "\<And>j. nlink (icache s1 j) = nlink (icache s j)"
      "\<And>j. type (icache s1 j) = type (icache s j)" "\<not> symlnk (icache s1 ip)"
      using a by (auto simp: s1_def)
    have of: "open_follow 0 ip s1 = LDone 0 ip s1"
      using f1 by (simp add: open_follow_plain)
    from filealloc_cases [of s1] show "content s' = content s
              \<and> (\<forall>j. nlink (icache s' j) = nlink (icache s j)
                     \<and> type (icache s' j) = type (icache s j))
              \<and> (0 \<le> fd \<longrightarrow>
                   (\<exists>f. ofile s' (nat fd) = Some f \<and> f < length (ftable s')
                      \<and> f_ip (ftable s' ! f) = ip \<and> f_type (ftable s' ! f) = FD_INODE))"
    proof
      assume "filealloc s1 = (None, s1)"
      with o f1 of show ?thesis by (auto simp: open_file_def)
    next
      assume "\<exists>i. i < length (ftable s1) \<and> f_ref (ftable s1 ! i) = 0 \<and>
        filealloc s1 = (Some i, s1\<lparr>ftable := (ftable s1)[i := (ftable s1 ! i)\<lparr>f_ref := 1\<rparr>]\<rparr>)"
      then obtain i where i: "i < length (ftable s1)"
        and fa: "filealloc s1 = (Some i, s1\<lparr>ftable := (ftable s1)[i := (ftable s1 ! i)\<lparr>f_ref := 1\<rparr>]\<rparr>)"
        by blast
      define s2 where "s2 = s1\<lparr>ftable := (ftable s1)[i := (ftable s1 ! i)\<lparr>f_ref := 1\<rparr>]\<rparr>"
      have f2: "content s2 = content s" "\<And>j. nlink (icache s2 j) = nlink (icache s j)"
        "\<And>j. type (icache s2 j) = type (icache s j)" "i < length (ftable s2)"
        using f1 i by (auto simp: s2_def)
      from fdalloc_cases [of kp i s2] show ?thesis
      proof
        assume "fdalloc kp i s2 = (- 1, s2)"
        with o f1 fa f2 of show ?thesis
          by (simp add: open_file_def s2_def [symmetric]) auto
      next
        assume "\<exists>n. n < NOFILE kp \<and> ofile s2 n = None \<and>
          fdalloc kp i s2 = (int n, s2\<lparr>ofile := (ofile s2)(n \<mapsto> i)\<rparr>)"
        then obtain n where "fdalloc kp i s2 = (int n, s2\<lparr>ofile := (ofile s2)(n \<mapsto> i)\<rparr>)"
          by blast
        with o f1 fa f2 of show ?thesis
          by (simp add: open_file_def s2_def [symmetric] iunlock_def Let_def) auto
      qed
    qed
  qed
qed


theorem create_existing_file_witness:
  "(\<exists>s'. create ''/a'' T_FILE 0 0 fs0 = Ret (Some (1, 2)) s'
       \<and> busy (icache s' (1, 2))
       \<and> new_events fs0 s' = []
       \<and> content s' = content fs0
       \<and> nlink (icache s' (1, 2)) = 2)
   \<and> (\<exists>s'. create ''/d'' T_FILE 0 0 fs0 = Ret None s'
       \<and> \<not> busy (icache s' (1, 3))
       \<and> content s' = content fs0)
   \<and> (\<exists>s'. sys_open kp0 (Some ''/a'') (Some 512) fs0 = Ret 0 s'
       \<and> content s' = content fs0
       \<and> nlink (icache s' (1, 2)) = 2
       \<and> (\<exists>f. ofile s' 0 = Some f \<and> f_ip (ftable s' ! f) = (1, 2)))"
proof -
  have pa: "resolve_parent fs0 ''/a'' = Some ((1, 1), ''a'')" by code_simp
  have la: "lookup_slot fs0 (1, 1) ''a'' = Some 2" by code_simp
  have ia: "(1, 2) = (dev (1 :: nat, 1 :: nat), de_inum (content fs0 (1, 1) 2))" by code_simp
  have ta: "type (icache fs0 (1, 2)) = T_FILE" by code_simp
  have sa: "\<not> symlnk (icache fs0 (1, 2))" by code_simp
  have na: "nlink (icache fs0 (1, 2)) = 2" by code_simp
  have pd: "resolve_parent fs0 ''/d'' = Some ((1, 1), ''d'')" by code_simp
  have ld: "lookup_slot fs0 (1, 1) ''d'' = Some 3" by code_simp
  have id: "(1, 3) = (dev (1 :: nat, 1 :: nat), de_inum (content fs0 (1, 1) 3))" by code_simp
  have td: "type (icache fs0 (1, 3)) \<noteq> T_FILE" by code_simp
  have oc: "(512 :: 32 word) AND O_CREATE kp0 \<noteq> 0" by (simp add: kp0_def)
  have "ret_val (sys_open kp0 (Some ''/a'') (Some 512) fs0) = Some 0"
    by code_simp
  from ret_valD [OF this]
  obtain s1 where op: "sys_open kp0 (Some ''/a'') (Some 512) fs0 = Ret 0 s1" ..
  note A = create_existing_file [OF pa la ia, where t = T_FILE and mj = 0 and mn = 0 and omode = 512 and kp = kp0]
  note D = create_existing_file [OF pd ld id, where t = T_FILE and mj = 0 and mn = 0 and omode = 512 and kp = kp0]
  from A [THEN conjunct1, rule_format, OF ta]
  obtain s' where "create ''/a'' T_FILE 0 0 fs0 = Ret (Some (1, 2)) s'"
    "busy (icache s' (1, 2))" "new_events fs0 s' = []" "content s' = content fs0"
    "nlink (icache s' (1, 2)) = nlink (icache fs0 (1, 2))"
    by blast
  with na have 1: "\<exists>s'. create ''/a'' T_FILE 0 0 fs0 = Ret (Some (1, 2)) s'
       \<and> busy (icache s' (1, 2))
       \<and> new_events fs0 s' = []
       \<and> content s' = content fs0
       \<and> nlink (icache s' (1, 2)) = 2"
    by simp
  from D [THEN conjunct2, THEN conjunct1, rule_format, OF disjI2, OF td]
  have 2: "\<exists>s'. create ''/d'' T_FILE 0 0 fs0 = Ret None s'
       \<and> \<not> busy (icache s' (1, 3))
       \<and> content s' = content fs0"
    by blast
  from A [THEN conjunct2, THEN conjunct2, rule_format, OF conjI [OF ta conjI [OF sa oc]] op]
  have "content s1 = content fs0" "nlink (icache s1 (1, 2)) = nlink (icache fs0 (1, 2))"
    "\<exists>f. ofile s1 (nat 0) = Some f \<and> f < length (ftable s1)
        \<and> f_ip (ftable s1 ! f) = (1, 2) \<and> f_type (ftable s1 ! f) = FD_INODE"
    by simp_all
  with na op
  have 3: "\<exists>s'. sys_open kp0 (Some ''/a'') (Some 512) fs0 = Ret 0 s'
       \<and> content s' = content fs0
       \<and> nlink (icache s' (1, 2)) = 2
       \<and> (\<exists>f. ofile s' 0 = Some f \<and> f_ip (ftable s' ! f) = (1, 2))"
    by (intro exI [of _ s1]) auto
  from 1 2 3 show ?thesis by blast
qed

text \<open>
  C9. A \<open>create\<close> that returns a new directory: the inode is not the parent, its link
  count is 1, the link count of the parent is one more than before, in memory and on the
  disk, the first two entries of the new directory are \<open>.\<close> for the directory itself and
  \<open>..\<close> for the parent, the parent holds the entry for the new name, and the effects, in
  this order, are: the allocation, the three assignments to the new inode and its
  write-back, the increment of the parent and its write-back, the writes of \<open>.\<close> and
  \<open>..\<close> into the new directory and, last, the write of the entry into the parent.
\<close>

theorem create_directory_links:
  assumes c: "create path T_DIR mj mn s = Ret (Some ip) s'"
    and p: "resolve_parent s path = Some (dp, name)"
  shows "ip \<noteq> dp
       \<and> nlink (icache s' ip) = 1
       \<and> nlink (icache s' dp) = nlink (icache s dp) + 1
       \<and> d_nlink (disk s' dp) = nlink (icache s dp) + 1
       \<and> content s' ip 0 = \<lparr>de_inum = inum ip, de_name = ''.''\<rparr>
       \<and> content s' ip 1 = \<lparr>de_inum = inum dp, de_name = ''..''\<rparr>
       \<and> content s' dp (free_slot s dp) = \<lparr>de_inum = inum ip, de_name = name\<rparr>
       \<and> new_events s s' =
            [IAlloc ip, Store ip, Store ip, Store ip, IUpdate ip, Store dp, IUpdate dp,
             WriteI ip 0, WriteI ip sizeof_de, WriteI dp (free_slot s dp * sizeof_de)]"
proof -
  have l: "lookup_slot s dp name = None"
  proof (cases "lookup_slot s dp name")
    case None
    then show ?thesis .
  next
    case (Some k)
    with c p show ?thesis
      by (simp add: create_def nameiparent_def dirlookup_def Let_def)
  qed
  have n: "ninodes (ilock dp (iget dp s)) = ninodes s"
    by (simp add: ilock_def iget_def)
  obtain i where f: "find (\<lambda>i. type (icache s (dev dp, i)) = T_NONE) [1 ..< ninodes s] = Some i"
  proof (cases "find (\<lambda>i. type (icache s (dev dp, i)) = T_NONE) [1 ..< ninodes s]")
    case None
    with c p l n have False
      by (simp add: create_def nameiparent_def dirlookup_def ialloc_def Let_def)
    then show ?thesis ..
  next
    case (Some i)
    with that show ?thesis .
  qed
  note run = create_dir_run [OF p l f refl, of mj mn]
  show ?thesis
  proof (cases "free_slot s dp * sizeof_de \<le> size_i (icache s dp)")
    case False
    with run c show ?thesis by simp
  next
    case True
    with run c show ?thesis by auto
  qed
qed

theorem create_directory_links_witness:
  "\<exists>s'. create ''/d/n'' T_DIR 0 0 fs0 = Ret (Some (1, 7)) s'
      \<and> nlink (icache s' (1, 7)) = 1
      \<and> nlink (icache s' (1, 3)) = 2
      \<and> d_nlink (disk s' (1, 3)) = 2
      \<and> content s' (1, 7) 0 = \<lparr>de_inum = 7, de_name = ''.''\<rparr>
      \<and> content s' (1, 7) 1 = \<lparr>de_inum = 3, de_name = ''..''\<rparr>
      \<and> content s' (1, 3) 2 = \<lparr>de_inum = 7, de_name = ''n''\<rparr>
      \<and> new_events fs0 s' =
            [IAlloc (1, 7), Store (1, 7), Store (1, 7), Store (1, 7), IUpdate (1, 7),
             Store (1, 3), IUpdate (1, 3), WriteI (1, 7) 0, WriteI (1, 7) 16, WriteI (1, 3) 32]"
proof -
  have p: "resolve_parent fs0 ''/d/n'' = Some ((1, 3), ''n'')" by code_simp
  have l: "lookup_slot fs0 (1, 3) ''n'' = None" by code_simp
  have a: "find (\<lambda>i. type (icache fs0 (dev (1 :: nat, 3 :: nat), i)) = T_NONE) [1 ..< ninodes fs0] = Some 7"
    by code_simp
  have r: "free_slot fs0 (1, 3) * sizeof_de \<le> size_i (icache fs0 (1, 3))" by code_simp
  have j: "(1, 7) = (dev (1 :: nat, 3 :: nat), 7 :: nat)" by simp
  from create_dir_run [OF p l a j, THEN conjunct2, rule_format, OF r, of 0 0]
  obtain s1 where c: "create ''/d/n'' T_DIR 0 0 fs0 = Ret (Some (1, 7)) s1"
    by blast
  have f: "free_slot fs0 (1, 3) = 2" by code_simp
  have n: "nlink (icache fs0 (1, 3)) = 1" by code_simp
  from create_directory_links [OF c p] f n c show ?thesis
    by (intro exI [of _ s1]) (simp add: sizeof_de_def)
qed

text \<open>
  C4. \<open>unlink\<close> of a name other than \<open>.\<close> and \<open>..\<close> whose entry is a directory with a
  link count of at least 1 and a size that is a multiple of the entry size: when every
  slot behind the first two is free, the call returns 0, having zeroed the entry of the
  parent and (the directory not being its own parent) decremented and written back both
  link counts inside one transaction; when a
  slot behind the first two is in use, the call returns -1, and the content of every
  directory and the link count and size of every inode are as before (the run only opens
  and commits its transaction).
\<close>

theorem unlink_directory:
  assumes p: "resolve_parent s path = Some (dp, name)"
    and n: "name \<noteq> ''.''" "name \<noteq> ''..''"
    and l: "lookup_slot s dp name = Some k"
    and ip: "ip = (dev dp, de_inum (content s dp k))"
    and t: "type (icache s ip) = T_DIR"
    and nl: "1 \<le> sint (nlink (icache s ip))"
    and sz: "sizeof_de dvd size_i (icache s ip)"
  shows "((\<forall>j. 2 \<le> j \<and> j * sizeof_de < size_i (icache s ip) \<longrightarrow> de_inum (content s ip j) = 0) \<longrightarrow>
           (\<exists>s'. sys_unlink (Some path) s = Ret 0 s'
              \<and> content s' dp k = zero_de
              \<and> (ip \<noteq> dp \<longrightarrow>
                     nlink (icache s' ip) = nlink (icache s ip) - 1
                   \<and> nlink (icache s' dp) = nlink (icache s dp) - 1
                   \<and> d_nlink (disk s' ip) = nlink (icache s ip) - 1
                   \<and> d_nlink (disk s' dp) = nlink (icache s dp) - 1)
              \<and> new_events s s' =
                   [BeginTrans, WriteI dp (k * sizeof_de), Store dp, IUpdate dp,
                    Store ip, IUpdate ip, CommitTrans]))
       \<and> ((\<exists>j. 2 \<le> j \<and> j * sizeof_de < size_i (icache s ip) \<and> de_inum (content s ip j) \<noteq> 0) \<longrightarrow>
           (\<exists>s'. sys_unlink (Some path) s = Ret (- 1) s'
              \<and> content s' = content s
              \<and> (\<forall>i. nlink (icache s' i) = nlink (icache s i))
              \<and> (\<forall>i. size_i (icache s' i) = size_i (icache s i))
              \<and> new_events s s' = [BeginTrans, CommitTrans]))"
proof -
  define s2 where "s2 = iget ip (ilock dp (begin_trans (iget dp s)))"
  define s3 where "s3 = ilock ip s2"
  have s3: "content s3 = content s" "\<And>i. size_i (icache s3 i) = size_i (icache s i)"
    "\<And>i. nlink (icache s3 i) = nlink (icache s i)" "\<And>i. type (icache s3 i) = type (icache s i)"
    "trace s3 = trace s @ [BeginTrans]"
    by (simp_all add: s3_def s2_def)
  have s2: "content s2 = content s" "\<And>i. size_i (icache s2 i) = size_i (icache s i)"
    "\<And>i. nlink (icache s2 i) = nlink (icache s i)" "\<And>i. type (icache s2 i) = type (icache s i)"
    "trace s2 = trace s @ [BeginTrans]"
    by (simp_all add: s2_def)
  have dpt: "type (icache s dp) = T_DIR"
    using p by (rule resolve_parent_dir)
  have nc: "namecmp name ''.'' \<noteq> 0" "namecmp name ''..'' \<noteq> 0"
    using n by (simp_all add: namecmp_def)
  have two: "sizeof_de dvd 2 * sizeof_de" by simp
  have e: "isdirempty ip s3 =
      Inr (if (\<forall>j. 2 \<le> j \<and> j * sizeof_de < size_i (icache s ip) \<longrightarrow> de_inum (content s ip j) = 0)
           then 1 else 0)"
    using isdirempty_from_eq [of s3 ip "2 * sizeof_de"] sz s3
    by (simp add: isdirempty_def sizeof_de_def)
  have np: "nameiparent path s = (Some (dp, name), iget dp s)"
    using p by (simp add: nameiparent_def)
  have dl: "dirlookup dp name (ilock dp (begin_trans (iget dp s))) = (Some (ip, k * sizeof_de), s2)"
    using l ip by (simp add: dirlookup_def Let_def s2_def)
  have w: "writei dp zero_de (k * sizeof_de) sizeof_de s3
             = (int sizeof_de, put_de dp zero_de (k * sizeof_de) sizeof_de s3)"
    using lookup_slot_SomeD(1) [OF l] s3 by (simp add: writei_def)
  have kd: "k * sizeof_de div sizeof_de = k" by (simp add: sizeof_de_def)
  show ?thesis
  proof (intro conjI impI)
    assume "\<forall>j. 2 \<le> j \<and> j * sizeof_de < size_i (icache s ip) \<longrightarrow> de_inum (content s ip j) = 0"
    with e have "isdirempty ip s3 = Inr 1" by simp
    with w s2 s3 kd nc t nl dpt show "\<exists>s'. sys_unlink (Some path) s = Ret 0 s'
              \<and> content s' dp k = zero_de
              \<and> (ip \<noteq> dp \<longrightarrow>
                     nlink (icache s' ip) = nlink (icache s ip) - 1
                   \<and> nlink (icache s' dp) = nlink (icache s dp) - 1
                   \<and> d_nlink (disk s' ip) = nlink (icache s ip) - 1
                   \<and> d_nlink (disk s' dp) = nlink (icache s dp) - 1)
              \<and> new_events s s' =
                   [BeginTrans, WriteI dp (k * sizeof_de), Store dp, IUpdate dp,
                    Store ip, IUpdate ip, CommitTrans]"
      by (simp add: sys_unlink_def np dl s3_def [symmetric] Let_def new_events_def
          iunlockput_def iput_def iunlock_def istore_def iupdate_def commit_trans_def
          put_de_def to_dinode_def)
  next
    assume "\<exists>j. 2 \<le> j \<and> j * sizeof_de < size_i (icache s ip) \<and> de_inum (content s ip j) \<noteq> 0"
    with e have "isdirempty ip s3 = Inr 0" by auto
    with s2 s3 nc t nl dpt show "\<exists>s'. sys_unlink (Some path) s = Ret (- 1) s'
              \<and> content s' = content s
              \<and> (\<forall>i. nlink (icache s' i) = nlink (icache s i))
              \<and> (\<forall>i. size_i (icache s' i) = size_i (icache s i))
              \<and> new_events s s' = [BeginTrans, CommitTrans]"
      by (simp add: sys_unlink_def np dl s3_def [symmetric] unlink_bad_def Let_def new_events_def)
  qed
qed

theorem unlink_directory_witness:
  "(\<exists>s'. sys_unlink (Some ''/d'') fs0 = Ret 0 s'
       \<and> content s' (1, 1) 3 = zero_de
       \<and> nlink (icache s' (1, 3)) = nlink (icache fs0 (1, 3)) - 1
       \<and> nlink (icache s' (1, 1)) = nlink (icache fs0 (1, 1)) - 1
       \<and> d_nlink (disk s' (1, 3)) = nlink (icache fs0 (1, 3)) - 1
       \<and> d_nlink (disk s' (1, 1)) = nlink (icache fs0 (1, 1)) - 1
       \<and> new_events fs0 s' =
            [BeginTrans, WriteI (1, 1) 48, Store (1, 1), IUpdate (1, 1),
             Store (1, 3), IUpdate (1, 3), CommitTrans])
   \<and> (\<exists>s'. sys_unlink (Some ''/e'') fs0 = Ret (- 1) s'
       \<and> content s' = content fs0
       \<and> nlink (icache s' (1, 5)) = nlink (icache fs0 (1, 5))
       \<and> nlink (icache s' (1, 1)) = nlink (icache fs0 (1, 1))
       \<and> new_events fs0 s' = [BeginTrans, CommitTrans])"
proof -
  have pd: "resolve_parent fs0 ''/d'' = Some ((1, 1), ''d'')" by code_simp
  have nd: "''d'' \<noteq> ''.''" "''d'' \<noteq> ''..''" by simp_all
  have ld: "lookup_slot fs0 (1, 1) ''d'' = Some 3" by code_simp
  have id: "(1, 3) = (dev (1 :: nat, 1 :: nat), de_inum (content fs0 (1, 1) 3))" by code_simp
  have td: "type (icache fs0 (1, 3)) = T_DIR" by code_simp
  have nld: "1 \<le> sint (nlink (icache fs0 (1, 3)))" by code_simp
  have zd: "size_i (icache fs0 (1, 3)) = 32" by code_simp
  have szd: "sizeof_de dvd size_i (icache fs0 (1, 3))" by code_simp
  have ed: "\<forall>j. 2 \<le> j \<and> j * sizeof_de < size_i (icache fs0 (1, 3))
              \<longrightarrow> de_inum (content fs0 (1, 3) j) = 0"
    unfolding zd sizeof_de_def by simp
  have pe: "resolve_parent fs0 ''/e'' = Some ((1, 1), ''e'')" by code_simp
  have ne: "''e'' \<noteq> ''.''" "''e'' \<noteq> ''..''" by simp_all
  have le: "lookup_slot fs0 (1, 1) ''e'' = Some 5" by code_simp
  have ie: "(1, 5) = (dev (1 :: nat, 1 :: nat), de_inum (content fs0 (1, 1) 5))" by code_simp
  have te: "type (icache fs0 (1, 5)) = T_DIR" by code_simp
  have nle: "1 \<le> sint (nlink (icache fs0 (1, 5)))" by code_simp
  have ze: "size_i (icache fs0 (1, 5)) = 48" by code_simp
  have sze: "sizeof_de dvd size_i (icache fs0 (1, 5))" by code_simp
  have x: "de_inum (content fs0 (1, 5) 2) \<noteq> 0" by code_simp
  have ee: "\<exists>j. 2 \<le> j \<and> j * sizeof_de < size_i (icache fs0 (1, 5))
              \<and> de_inum (content fs0 (1, 5) j) \<noteq> 0"
    using x unfolding ze sizeof_de_def by (intro exI [of _ 2]) simp
  from unlink_directory [OF pd nd ld id td nld szd, THEN conjunct1, THEN mp, OF ed]
  have 1: "\<exists>s'. sys_unlink (Some ''/d'') fs0 = Ret 0 s'
       \<and> content s' (1, 1) 3 = zero_de
       \<and> nlink (icache s' (1, 3)) = nlink (icache fs0 (1, 3)) - 1
       \<and> nlink (icache s' (1, 1)) = nlink (icache fs0 (1, 1)) - 1
       \<and> d_nlink (disk s' (1, 3)) = nlink (icache fs0 (1, 3)) - 1
       \<and> d_nlink (disk s' (1, 1)) = nlink (icache fs0 (1, 1)) - 1
       \<and> new_events fs0 s' =
            [BeginTrans, WriteI (1, 1) 48, Store (1, 1), IUpdate (1, 1),
             Store (1, 3), IUpdate (1, 3), CommitTrans]"
    by (auto simp add: sizeof_de_def)
  from unlink_directory [OF pe ne le ie te nle sze, THEN conjunct2, THEN mp, OF ee]
  have 2: "\<exists>s'. sys_unlink (Some ''/e'') fs0 = Ret (- 1) s'
       \<and> content s' = content fs0
       \<and> nlink (icache s' (1, 5)) = nlink (icache fs0 (1, 5))
       \<and> nlink (icache s' (1, 1)) = nlink (icache fs0 (1, 1))
       \<and> new_events fs0 s' = [BeginTrans, CommitTrans]"
    by auto
  from 1 2 show ?thesis by blast
qed

text \<open>
  C1. An \<open>open\<close> that starts at an existing inode (without \<open>O_CREATE\<close> the path
  resolves, and not to a directory opened with a mode other than \<open>O_RDONLY\<close>; or
  \<open>O_CREATE\<close> is given and the path names an existing plain file):
  when the chain of symbolic links from that inode has a depth of at most 15 and an open
  file and a descriptor are free, the call returns a free descriptor, for an open file of
  kind \<open>FD_INODE\<close> on the inode at the end of the chain; when 16 symbolic links can be
  followed from that inode (a chain of depth 16 or more, or a loop), the call halts the
  system.
\<close>

theorem open_follows_chain:
  assumes "(omode AND O_CREATE kp = 0 \<and> resolve s path = Some ip
              \<and> \<not> (type (icache s ip) = T_DIR \<and> omode \<noteq> O_RDONLY kp))
         \<or> (omode AND O_CREATE kp \<noteq> 0
              \<and> (\<exists>dp name k. resolve_parent s path = Some (dp, name)
                    \<and> lookup_slot s dp name = Some k
                    \<and> ip = (dev dp, de_inum (content s dp k)))
              \<and> type (icache s ip) = T_FILE)"
  shows "(\<forall>d t. d \<le> 15 \<and> chain s ip d = Some t \<and> \<not> symlnk (icache s t)
              \<and> (\<exists>i < length (ftable s). f_ref (ftable s ! i) = 0)
              \<and> (\<exists>n < NOFILE kp. ofile s n = None) \<longrightarrow>
            (\<exists>fd f s'. sys_open kp (Some path) (Some omode) s = Ret (int fd) s'
               \<and> fd < NOFILE kp \<and> ofile s fd = None \<and> ofile s' fd = Some f
               \<and> f_type (ftable s' ! f) = FD_INODE \<and> f_ip (ftable s' ! f) = t))
       \<and> (\<forall>t. chain s ip 16 = Some t \<longrightarrow>
            sys_open kp (Some path) (Some omode) s = Halt ''symbolic link exceeds 16 links '')"
proof (intro conjI allI impI)
  fix d t
  assume a: "d \<le> 15 \<and> chain s ip d = Some t \<and> \<not> symlnk (icache s t)
              \<and> (\<exists>i < length (ftable s). f_ref (ftable s ! i) = 0)
              \<and> (\<exists>n < NOFILE kp. ofile s n = None)"
  from sys_open_existing [OF assms]
  obtain s0 where o: "sys_open kp (Some path) (Some omode) s = open_file kp omode ip s0"
    and v: "lview s0 = lview s" "ftable s0 = ftable s" "ofile s0 = ofile s"
    by blast
  from a obtain i n where i: "i < length (ftable s)" "f_ref (ftable s ! i) = 0"
    and n: "n < NOFILE kp" "ofile s n = None"
    by blast
  have c: "chain s0 ip d = Some t" "\<not> symlnk (icache s0 t)"
    using a chain_lview [OF v(1)] lview_eqD(1) [OF v(1)] by simp_all
  from open_file_depth [OF c, of i n kp omode] a i n v o
  show "\<exists>fd f s'. sys_open kp (Some path) (Some omode) s = Ret (int fd) s'
               \<and> fd < NOFILE kp \<and> ofile s fd = None \<and> ofile s' fd = Some f
               \<and> f_type (ftable s' ! f) = FD_INODE \<and> f_ip (ftable s' ! f) = t"
    by simp
next
  fix t
  assume "chain s ip 16 = Some t"
  from sys_open_bound [OF assms this]
  show "sys_open kp (Some path) (Some omode) s = Halt ''symbolic link exceeds 16 links ''" .
qed

theorem open_follows_chain_witness:
  "(\<exists>fd f s'. sys_open kp0 (Some ''/c'') (Some 0) fs17 = Ret (int fd) s'
       \<and> fd < NOFILE kp0 \<and> ofile fs17 fd = None \<and> ofile s' fd = Some f
       \<and> f_type (ftable s' ! f) = FD_INODE \<and> f_ip (ftable s' ! f) = (1, 19))
   \<and> sys_open kp0 (Some ''/m'') (Some 0) fs0 = Halt ''symbolic link exceeds 16 links ''"
proof -
  have r: "resolve fs17 ''/c'' = Some (1, 4)" by code_simp
  have t: "type (icache fs17 (1, 4)) \<noteq> T_DIR" by code_simp
  have c: "chain fs17 (1, 4) 15 = Some (1, 19)" by code_simp
  have n: "\<not> symlnk (icache fs17 (1, 19))" by code_simp
  have f: "(0 :: nat) < length (ftable fs17)" "f_ref (ftable fs17 ! 0) = 0" by code_simp+
  have o: "(0 :: nat) < NOFILE kp0" "ofile fs17 0 = None" by code_simp+
  have k: "(0 :: 32 word) AND O_CREATE kp0 = 0" by simp
  have h: "(0 AND O_CREATE kp0 = 0 \<and> resolve fs17 ''/c'' = Some (1, 4)
              \<and> \<not> (type (icache fs17 (1, 4)) = T_DIR \<and> 0 \<noteq> O_RDONLY kp0))
         \<or> (0 AND O_CREATE kp0 \<noteq> 0
              \<and> (\<exists>dp name k. resolve_parent fs17 ''/c'' = Some (dp, name)
                    \<and> lookup_slot fs17 dp name = Some k
                    \<and> (1, 4) = (dev dp, de_inum (content fs17 dp k)))
              \<and> type (icache fs17 (1, 4)) = T_FILE)"
    using r t k by simp
  have a: "15 \<le> (15 :: nat) \<and> chain fs17 (1, 4) 15 = Some (1, 19) \<and> \<not> symlnk (icache fs17 (1, 19))
              \<and> (\<exists>i < length (ftable fs17). f_ref (ftable fs17 ! i) = 0)
              \<and> (\<exists>n < NOFILE kp0. ofile fs17 n = None)"
    using c n f o by blast
  have rm: "resolve fs0 ''/m'' = Some (1, 6)" by code_simp
  have tm: "type (icache fs0 (1, 6)) \<noteq> T_DIR" by code_simp
  have cm: "chain fs0 (1, 6) 16 = Some (1, 6)" by code_simp
  have hm: "(0 AND O_CREATE kp0 = 0 \<and> resolve fs0 ''/m'' = Some (1, 6)
              \<and> \<not> (type (icache fs0 (1, 6)) = T_DIR \<and> 0 \<noteq> O_RDONLY kp0))
         \<or> (0 AND O_CREATE kp0 \<noteq> 0
              \<and> (\<exists>dp name k. resolve_parent fs0 ''/m'' = Some (dp, name)
                    \<and> lookup_slot fs0 dp name = Some k
                    \<and> (1, 6) = (dev dp, de_inum (content fs0 dp k)))
              \<and> type (icache fs0 (1, 6)) = T_FILE)"
    using rm tm k by simp
  from open_follows_chain [OF h, THEN conjunct1, rule_format, OF a]
    open_follows_chain [OF hm, THEN conjunct2, rule_format, OF cm]
  show ?thesis by blast
qed

theorem open_chain_16_counterexample:
  "sys_open kp0 (Some ''/b'') (Some 0) fs17 = Halt ''symbolic link exceeds 16 links ''
   \<and> chain fs17 (1, 3) 16 = Some (1, 19) \<and> \<not> symlnk (icache fs17 (1, 19))
   \<and> resolve fs17 ''/b'' = Some (1, 3)"
proof -
  have r: "resolve fs17 ''/b'' = Some (1, 3)" by code_simp
  have t: "type (icache fs17 (1, 3)) \<noteq> T_DIR" by code_simp
  have c: "chain fs17 (1, 3) 16 = Some (1, 19)" by code_simp
  have n: "\<not> symlnk (icache fs17 (1, 19))" by code_simp
  have k: "(0 :: 32 word) AND O_CREATE kp0 = 0" by simp
  have h: "(0 AND O_CREATE kp0 = 0 \<and> resolve fs17 ''/b'' = Some (1, 3)
              \<and> \<not> (type (icache fs17 (1, 3)) = T_DIR \<and> 0 \<noteq> O_RDONLY kp0))
         \<or> (0 AND O_CREATE kp0 \<noteq> 0
              \<and> (\<exists>dp name k. resolve_parent fs17 ''/b'' = Some (dp, name)
                    \<and> lookup_slot fs17 dp name = Some k
                    \<and> (1, 3) = (dev dp, de_inum (content fs17 dp k)))
              \<and> type (icache fs17 (1, 3)) = T_FILE)"
    using r t k by simp
  from sys_open_bound [OF h c] r c n show ?thesis by simp
qed

text \<open>
  C8. A \<open>readlink\<close> of a path that resolves: when the inode is not a symbolic link, the
  call returns -1 and leaves the buffer as it is; when the inode is a symbolic link and,
  within the bound, a link of its chain has a target that does not resolve, the call
  returns -2, a value other than -1, and leaves the buffer as it is; when 16 symbolic
  links followed from the inode lead to a symbolic link again (a chain of 17 or more
  links, or a loop), the call halts the system.
\<close>

theorem readlink_errors:
  assumes "resolve s path = Some ip"
  shows "(\<not> symlnk (icache s ip) \<longrightarrow>
            (\<exists>s'. sys_readlink (Some path) (Some buf) (Some bufsiz) s = Ret (- 1, buf) s'))
       \<and> (\<forall>d l. d \<le> 15 \<and> chain s ip d = Some l \<and> symlnk (icache s l)
              \<and> resolve s (addrs (icache s l)) = None \<longrightarrow>
            (\<exists>s'. sys_readlink (Some path) (Some buf) (Some bufsiz) s = Ret (- 2, buf) s'))
       \<and> (\<forall>t. chain s ip 16 = Some t \<and> symlnk (icache s t) \<longrightarrow>
            sys_readlink (Some path) (Some buf) (Some bufsiz) s
              = Halt ''symbolic link exceeds 16 links '')"
proof (intro conjI allI impI)
  assume "\<not> symlnk (icache s ip)"
  with assms show "\<exists>s'. sys_readlink (Some path) (Some buf) (Some bufsiz) s = Ret (- 1, buf) s'"
    by (simp add: sys_readlink_def namei_def)
next
  fix d l
  assume a: "d \<le> 15 \<and> chain s ip d = Some l \<and> symlnk (icache s l)
              \<and> resolve s (addrs (icache s l)) = None"
  define s1 where "s1 = ilock ip (iget ip s)"
  have v: "lview s1 = lview s"
    by (simp add: s1_def)
  have "chain s1 ip d = Some l" "symlnk (icache s1 l)" "resolve s1 (addrs (icache s1 l)) = None"
    using a chain_lview [OF v] lview_eqD [OF v] by simp_all
  from readlink_follow_broken [OF this, of 0] a
  obtain s2 where "readlink_follow 0 ip s1 = LRet (- 2) s2"
    by auto
  moreover have "symlnk (icache s ip)"
    using a chain_symlnk_head by blast
  ultimately show "\<exists>s'. sys_readlink (Some path) (Some buf) (Some bufsiz) s = Ret (- 2, buf) s'"
    using assms by (simp add: sys_readlink_start s1_def [symmetric])
next
  fix t
  assume "chain s ip 16 = Some t \<and> symlnk (icache s t)"
  with assms show "sys_readlink (Some path) (Some buf) (Some bufsiz) s
              = Halt ''symbolic link exceeds 16 links ''"
    by (simp add: sys_readlink_bound)
qed

theorem readlink_errors_witness:
  "(\<exists>s'. sys_readlink (Some ''/a'') (Some ''buf'') (Some 100) fs0 = Ret (- 1, ''buf'') s')
   \<and> (\<exists>s'. sys_readlink (Some ''/l'') (Some ''buf'') (Some 100) fs0_broken = Ret (- 2, ''buf'') s')
   \<and> sys_readlink (Some ''/m'') (Some ''buf'') (Some 100) fs0
        = Halt ''symbolic link exceeds 16 links ''"
proof -
  have ra: "resolve fs0 ''/a'' = Some (1, 2)" by code_simp
  have na: "\<not> symlnk (icache fs0 (1, 2))" by code_simp
  have rl: "resolve fs0_broken ''/l'' = Some (1, 4)" by code_simp
  have cl: "0 \<le> (15 :: nat) \<and> chain fs0_broken (1, 4) 0 = Some (1, 4) \<and> symlnk (icache fs0_broken (1, 4))
              \<and> resolve fs0_broken (addrs (icache fs0_broken (1, 4))) = None"
    by code_simp
  have rm: "resolve fs0 ''/m'' = Some (1, 6)" by code_simp
  have cm: "chain fs0 (1, 6) 16 = Some (1, 6) \<and> symlnk (icache fs0 (1, 6))" by code_simp
  from readlink_errors [OF ra, THEN conjunct1, rule_format, OF na]
    readlink_errors [OF rl, THEN conjunct2, THEN conjunct1, rule_format, OF cl]
    readlink_errors [OF rm, THEN conjunct2, THEN conjunct2, rule_format, OF cm]
  show ?thesis by blast
qed

theorem readlink_long_chain_counterexample:
  "sys_readlink (Some ''/a'') (Some ''buf'') (Some 100) fs17
     = Halt ''symbolic link exceeds 16 links ''
   \<and> resolve fs17 ''/a'' = Some (1, 2)
   \<and> chain fs17 (1, 2) 17 = Some (1, 19) \<and> \<not> symlnk (icache fs17 (1, 19))"
proof -
  have r: "resolve fs17 ''/a'' = Some (1, 2)" by code_simp
  have c: "chain fs17 (1, 2) 16 = Some (1, 18)" by code_simp
  have s: "symlnk (icache fs17 (1, 18))" by code_simp
  have c17: "chain fs17 (1, 2) 17 = Some (1, 19)" by code_simp
  have n: "\<not> symlnk (icache fs17 (1, 19))" by code_simp
  from sys_readlink_bound [OF r c s] r c17 n show ?thesis by simp
qed

text \<open>
  C2. Every run of \<open>link\<close>, \<open>unlink\<close>, \<open>open\<close>, \<open>mkdir\<close>, \<open>mknod\<close>, \<open>symlink\<close> and the
  tag calls that returns keeps the effects that were there and adds either no transaction
  bracket at all or exactly one \<open>begin_trans\<close> followed by exactly one \<open>commit_trans\<close>:
  the bracket is there when the call reaches \<open>begin_trans\<close>, which \<open>mkdir\<close> and \<open>mknod\<close>
  do before they fetch their arguments and the other calls do after their entry
  validation (an \<open>open\<close> only with \<open>O_CREATE\<close>); every failure behind it commits.
\<close>

theorem transaction_bracket:
  assumes "run kp c s = Some s'"
  shows "extends s s'
       \<and> txn_events (new_events s s') =
           (if opens_txn kp c s then [BeginTrans, CommitTrans] else [])"
proof -
  from run_brackets [OF assms]
  have e: "extends s s'"
    and t: "txn s' = txn s @ (if opens_txn kp c s then [BeginTrans, CommitTrans] else [])"
    by simp_all
  from new_events_txn [OF e t] e show ?thesis
    by simp
qed

theorem transaction_bracket_witness:
  "(\<exists>s'. run kp0 (Link (Some ''/d'') (Some ''/z'')) fs0 = Some s'
       \<and> extends fs0 s'
       \<and> txn_events (new_events fs0 s') = [BeginTrans, CommitTrans])
   \<and> (\<exists>s'. run kp0 (Unlink None) fs0 = Some s'
       \<and> extends fs0 s'
       \<and> txn_events (new_events fs0 s') = [])"
proof -
  have r: "resolve fs0 ''/d'' = Some (1, 3)" by code_simp
  have t: "type (icache fs0 (1, 3)) = T_DIR" by code_simp
  define s1 where "s1 = commit_trans (iunlockput (1, 3) (ilock (1, 3) (begin_trans (iget (1, 3) fs0))))"
  have "sys_link (Some ''/d'') (Some ''/z'') fs0 = Ret (- 1) s1"
    using r t by (simp add: sys_link_def namei_def s1_def)
  then have r1: "run kp0 (Link (Some ''/d'') (Some ''/z'')) fs0 = Some s1"
    by (simp add: final_def)
  have o1: "opens_txn kp0 (Link (Some ''/d'') (Some ''/z'')) fs0"
    using r by simp
  have r2: "run kp0 (Unlink None) fs0 = Some fs0"
    by (simp add: final_def sys_unlink_def)
  have o2: "\<not> opens_txn kp0 (Unlink None) fs0"
    by simp
  from transaction_bracket [OF r1] o1
  have 1: "extends fs0 s1 \<and> txn_events (new_events fs0 s1) = [BeginTrans, CommitTrans]"
    by simp
  from transaction_bracket [OF r2] o2
  have 2: "extends fs0 fs0 \<and> txn_events (new_events fs0 fs0) = []"
    by simp
  from 1 2 r1 r2 show ?thesis by blast
qed

theorem mkdir_bracket_counterexample:
  "run_txn kp0 (Mkdir None) fs0 = Some [BeginTrans, CommitTrans]
   \<and> \<not> entry_valid kp0 (Mkdir None) fs0"
  by (simp add: run_txn_def final_def sys_mkdir_def Let_def new_events_def
      begin_trans_def commit_trans_def)

text \<open>
  C7. \<open>sys_symlink\<close> of a target shorter than \<open>MAX_LNK_NAME\<close>, at a path with no
  entry whose parent directory exists and has room for the entry, while an inode of the
  device (the first free one is \<open>i\<close>) and an open file (the first free one is \<open>fi\<close>) are
  free: the call returns 0.
  The plain-file inode is created and entered at the path inside one transaction
  (the first eight effects); the target is stored into the inline buffer of the in-memory
  inode, the symbolic-link flag is set and the size is set to 0 after that transaction
  has been committed, outside any transaction, and the inode is not written back (the
  buffer of the inode on disk stays empty). The open file is of kind \<open>FD_SYMLNK\<close> over
  the new inode, readable and not writable, and no descriptor is allocated for it.
\<close>

theorem symlink_stores_after_commit:
  assumes "resolve_parent s path = Some (dp, name)"
    and "lookup_slot s dp name = None"
    and "find (\<lambda>i. type (icache s (dev dp, i)) = T_NONE) [1 ..< ninodes s] = Some i"
    and "free_slot s dp * sizeof_de \<le> size_i (icache s dp)"
    and "find (\<lambda>i. f_ref (ftable s ! i) = 0) [0 ..< length (ftable s)] = Some fi"
    and "length target < MAX_LNK_NAME kp"
  shows "\<exists>s'. sys_symlink kp (Some target) (Some path) s = Ret 0 s'
       \<and> new_events s s' =
            [BeginTrans, IAlloc (dev dp, i), Store (dev dp, i), Store (dev dp, i),
             Store (dev dp, i), IUpdate (dev dp, i), WriteI dp (free_slot s dp * sizeof_de),
             CommitTrans, Store (dev dp, i), Store (dev dp, i), Store (dev dp, i)]
       \<and> in_one_txn (take 8 (new_events s s'))
       \<and> \<not> in_one_txn (new_events s s')
       \<and> content s' dp (free_slot s dp) = \<lparr>de_inum = i, de_name = name\<rparr>
       \<and> type (icache s' (dev dp, i)) = T_FILE
       \<and> addrs (icache s' (dev dp, i)) = target
       \<and> symlnk (icache s' (dev dp, i))
       \<and> size_i (icache s' (dev dp, i)) = 0
       \<and> d_addrs (disk s' (dev dp, i)) = []
       \<and> f_type (ftable s' ! fi) = FD_SYMLNK
       \<and> f_ip (ftable s' ! fi) = (dev dp, i)
       \<and> readable (ftable s' ! fi)
       \<and> \<not> writable (ftable s' ! fi)
       \<and> ofile s' = ofile s"
proof -
  have len: "length target \<le> MAX_LNK_NAME kp"
    using assms(6) by simp
  have cp: "safestrcpy [] target (int (MAX_LNK_NAME kp)) = target"
    using assms(6) by (simp add: safestrcpy_def)
  from symlink_run [OF assms(1,2,3) refl assms(4,5) len]
  obtain s' where r: "sys_symlink kp (Some target) (Some path) s = Ret 0 s'"
    and ic: "icache s' (dev dp, i) = \<lparr>ref = 1, busy = False, symlnk = True, type = T_FILE,
               major = 0, minor = 0, nlink = 1, size_i = 0, addrs = target\<rparr>"
    and dk: "disk s' (dev dp, i) = to_dinode ((fresh_inode T_FILE)\<lparr>nlink := 1\<rparr>)"
    and ct: "content s' = (content s)(dp := (content s dp)
            (free_slot s dp := \<lparr>de_inum = inum (dev dp, i), de_name = name\<rparr>))"
    and ft: "ftable s' = (ftable s)[fi := (ftable s ! fi)
            \<lparr>f_ref := 1, f_type := FD_SYMLNK, f_ip := (dev dp, i), f_off := 0,
             readable := True, writable := False\<rparr>]"
    and fi: "fi < length (ftable s)"
    and ofl: "ofile s' = ofile s"
    and tr: "trace s' = trace s @
            [BeginTrans, IAlloc (dev dp, i), Store (dev dp, i), Store (dev dp, i),
             Store (dev dp, i), IUpdate (dev dp, i), WriteI dp (free_slot s dp * sizeof_de),
             CommitTrans, Store (dev dp, i), Store (dev dp, i), Store (dev dp, i)]"
    unfolding cp by blast
  have ev: "new_events s s' =
            [BeginTrans, IAlloc (dev dp, i), Store (dev dp, i), Store (dev dp, i),
             Store (dev dp, i), IUpdate (dev dp, i), WriteI dp (free_slot s dp * sizeof_de),
             CommitTrans, Store (dev dp, i), Store (dev dp, i), Store (dev dp, i)]"
    using tr by (simp add: new_events_def)
  have t1: "in_one_txn (take 8 (new_events s s'))" "\<not> in_one_txn (new_events s s')"
    unfolding ev by (simp_all add: in_one_txn_def txn_events_def)
  have d: "d_addrs (disk s' (dev dp, i)) = []"
    using dk by (simp add: to_dinode_def fresh_inode_def)
  have c: "content s' dp (free_slot s dp) = \<lparr>de_inum = i, de_name = name\<rparr>"
    using ct by simp
  have f: "f_type (ftable s' ! fi) = FD_SYMLNK" "f_ip (ftable s' ! fi) = (dev dp, i)"
    "readable (ftable s' ! fi)" "\<not> writable (ftable s' ! fi)"
    using ft fi by simp_all
  show ?thesis
    using r ev t1 d c f ofl ic by simp
qed

theorem symlink_stores_after_commit_witness:
  "\<exists>s'. sys_symlink kp0 (Some ''/a'') (Some ''/n'') fs0 = Ret 0 s'
       \<and> new_events fs0 s' =
            [BeginTrans, IAlloc (1, 7), Store (1, 7), Store (1, 7), Store (1, 7),
             IUpdate (1, 7), WriteI (1, 1) 112, CommitTrans,
             Store (1, 7), Store (1, 7), Store (1, 7)]
       \<and> addrs (icache s' (1, 7)) = ''/a''
       \<and> symlnk (icache s' (1, 7))
       \<and> size_i (icache s' (1, 7)) = 0
       \<and> d_addrs (disk s' (1, 7)) = []
       \<and> f_type (ftable s' ! 0) = FD_SYMLNK
       \<and> readable (ftable s' ! 0)
       \<and> \<not> writable (ftable s' ! 0)"
proof -
  have len: "length ''/a'' < MAX_LNK_NAME kp0"
    by code_simp
  from symlink_stores_after_commit [OF fs0_symlink_facts(1,2,3,4,5) len]
  show ?thesis
    unfolding fs0_symlink_facts(6) by auto
qed

theorem symlink_store_counterexample:
  "run_events kp0 (Symlink (Some ''/a'') (Some ''/d/s'')) fs0 =
     Some [BeginTrans, IAlloc (1, 7), Store (1, 7), Store (1, 7), Store (1, 7),
           IUpdate (1, 7), WriteI (1, 3) 32, CommitTrans,
           Store (1, 7), Store (1, 7), Store (1, 7)]
   \<and> \<not> in_one_txn
         [BeginTrans, IAlloc (1, 7), Store (1, 7), Store (1, 7), Store (1, 7),
          IUpdate (1, 7), WriteI (1, 3) 32, CommitTrans,
          Store (1, 7), Store (1, 7), Store (1, 7)]"
proof -
  from symlink_run [OF fs0_symlink_in_d(1,2,3) refl fs0_symlink_in_d(4,5,7)]
  obtain s' where r: "sys_symlink kp0 (Some ''/a'') (Some ''/d/s'') fs0 = Ret 0 s'"
    and tr: "trace s' = trace fs0 @
            [BeginTrans, IAlloc (1, 7), Store (1, 7), Store (1, 7), Store (1, 7),
             IUpdate (1, 7), WriteI (1, 3) (free_slot fs0 (1, 3) * sizeof_de), CommitTrans,
             Store (1, 7), Store (1, 7), Store (1, 7)]"
    by auto
  have "run_events kp0 (Symlink (Some ''/a'') (Some ''/d/s'')) fs0 =
     Some [BeginTrans, IAlloc (1, 7), Store (1, 7), Store (1, 7), Store (1, 7),
           IUpdate (1, 7), WriteI (1, 3) 32, CommitTrans,
           Store (1, 7), Store (1, 7), Store (1, 7)]"
    using r tr unfolding fs0_symlink_in_d(6)
    by (simp add: run_events_def final_def new_events_def)
  moreover have "\<not> in_one_txn
         [BeginTrans, IAlloc (1, 7), Store (1, 7), Store (1, 7), Store (1, 7),
          IUpdate (1, 7), WriteI (1, 3) 32, CommitTrans,
          Store (1, 7), Store (1, 7), Store (1, 7)]"
    by (simp add: in_one_txn_def txn_events_def)
  ultimately show ?thesis
    by simp
qed

text \<open>
  C6. \<open>sys_symlink\<close> of a target at a path with no entry (in a directory with room,
  with a free inode and a free open file), followed by \<open>sys_readlink\<close> of that path:
  when the target is shorter than \<open>MAX_LNK_NAME\<close>, names an inode in use that is not a
  symbolic link, and fits the buffer with its closing zero, \<open>sys_readlink\<close> returns the
  length of the target and leaves exactly the target in the buffer.
\<close>

theorem symlink_readlink_roundtrip:
  assumes "resolve_parent s path = Some (dp, name)"
    and "lookup_slot s dp name = None"
    and "find (\<lambda>i. type (icache s (dev dp, i)) = T_NONE) [1 ..< ninodes s] = Some i"
    and "free_slot s dp * sizeof_de \<le> size_i (icache s dp)"
    and "find (\<lambda>i. f_ref (ftable s ! i) = 0) [0 ..< length (ftable s)] = Some fi"
    and "length target < MAX_LNK_NAME kp"
    and "resolve s target = Some t"
    and "type (icache s t) \<noteq> T_NONE"
    and "\<not> symlnk (icache s t)"
    and "int (length target) < sint bufsiz"
  shows "\<exists>s'. symlink_then_readlink kp target path buf bufsiz s =
           Ret (int (length target), target) s'"
proof -
  have len: "length target \<le> MAX_LNK_NAME kp"
    using assms(6) by simp
  have cp: "safestrcpy [] target (int (MAX_LNK_NAME kp)) = target"
    using assms(6) by (simp add: safestrcpy_def)
  from symlink_post [OF assms(1-5) len]
  obtain s1 where r: "sys_symlink kp (Some target) (Some path) s = Ret 0 s1"
    and rp: "resolve s1 path = Some (dev dp, i)"
    and sl: "symlnk (icache s1 (dev dp, i))"
    and ty: "type (icache s1 (dev dp, i)) = T_FILE"
    and ad: "addrs (icache s1 (dev dp, i)) = target"
    and mono: "\<And>q r. resolve s q = Some r \<Longrightarrow> resolve s1 q = Some r"
    and fr: "\<And>j. type (icache s j) \<noteq> T_NONE \<Longrightarrow> symlnk (icache s1 j) = symlnk (icache s j)"
    unfolding cp by blast
  have c: "chain s1 (dev dp, i) 0 = Some (dev dp, i)"
    by simp
  have rt: "resolve s1 (addrs (icache s1 (dev dp, i))) = Some t"
    using mono [OF assms(7)] ad by simp
  have nt: "\<not> symlnk (icache s1 t)"
    using fr [OF assms(8)] assms(9) by simp
  have bf: "safestrcpy buf target (sint bufsiz) = target"
    using assms(10) by (simp add: safestrcpy_def)
  from sys_readlink_last [OF rp c sl ty rt nt, of buf bufsiz]
  show ?thesis
    using r unfolding ad bf by (simp add: symlink_then_readlink_def)
qed

theorem symlink_readlink_roundtrip_witness:
  "\<exists>s'. symlink_then_readlink kp0 ''/a'' ''/n'' ''buf'' 100 fs0 = Ret (2, ''/a'') s'"
  using symlink_readlink_roundtrip [OF fs0_symlink_facts(1,2,3,4,5) fs0_target_facts(1,2,3,4,5),
      of "''buf''"]
  unfolding fs0_target_facts(6) .

theorem symlink_to_symlink_counterexample:
  "ret_val (symlink_then_readlink kp0 ''/l'' ''/n'' ''buf'' 100 fs0) = Some (2, ''/a'')
   \<and> resolve fs0 ''/n'' = None
   \<and> resolve fs0 ''/l'' = Some (1, 4)"
proof -
  from symlink_post [OF fs0_symlink_facts(1,2,3,4,5) fs0_link_facts(1)]
  obtain s1 where r: "sys_symlink kp0 (Some ''/l'') (Some ''/n'') fs0 = Ret 0 s1"
    and rp: "resolve s1 ''/n'' = Some (1, 7)"
    and sl: "symlnk (icache s1 (1, 7))"
    and ad: "addrs (icache s1 (1, 7)) = ''/l''"
    and mono: "\<And>q r. resolve fs0 q = Some r \<Longrightarrow> resolve s1 q = Some r"
    and fr: "\<And>j. type (icache fs0 j) \<noteq> T_NONE \<Longrightarrow>
             symlnk (icache s1 j) = symlnk (icache fs0 j)
           \<and> addrs (icache s1 j) = addrs (icache fs0 j)
           \<and> type (icache s1 j) = type (icache fs0 j)"
    unfolding fs0_link_facts(2) by auto
  have l4: "symlnk (icache s1 (1, 4))" "type (icache s1 (1, 4)) = T_FILE"
    "addrs (icache s1 (1, 4)) = ''/a''"
    using fr [OF fs0_link_facts(4)] fs0_link_facts(5,6,7) by simp_all
  have c: "chain s1 (1, 7) 1 = Some (1, 4)"
    using sl ad mono [OF fs0_link_facts(3)] by simp
  have rt: "resolve s1 (addrs (icache s1 (1, 4))) = Some (1, 2)"
    using mono [OF fs0_target_facts(2)] l4(3) by simp
  have nt: "\<not> symlnk (icache s1 (1, 2))"
    using fr [OF fs0_target_facts(3)] fs0_target_facts(4) by simp
  from sys_readlink_last [OF rp c l4(1,2) rt nt, of "''buf''" 100]
  have "ret_val (symlink_then_readlink kp0 ''/l'' ''/n'' ''buf'' 100 fs0) = Some (2, ''/a'')"
    using r unfolding l4(3) fs0_link_facts(8)
    by (auto simp: symlink_then_readlink_def ret_val_def)
  then show ?thesis
    using fs0_link_facts(3,9) by simp
qed

end
